theory Spec2Isabelle
  imports Main
begin

section \<open>Strings\<close>

text \<open>
  Go strings are byte sequences; they are modelled as \<open>string\<close> (a list of 8-bit
  characters). Where the library reads a string as text it decodes UTF-8, and the
  characters it sees are runes (code points, here natural numbers). The functions of
  this section are those of Go's standard library that the repository calls.
\<close>

abbreviation backslash :: char where
  "backslash \<equiv> CHR 0x5C"

abbreviation dquote :: char where
  "dquote \<equiv> CHR 0x22"

abbreviation newline :: char where
  "newline \<equiv> CHR 0x0A"

definition HasPrefix :: "string \<Rightarrow> string \<Rightarrow> bool" where
  "HasPrefix s prefix = (take (length prefix) s = prefix)"

definition HasSuffix :: "string \<Rightarrow> string \<Rightarrow> bool" where
  "HasSuffix s suffix = (length suffix \<le> length s \<and> drop (length s - length suffix) s = suffix)"

definition TrimPrefix :: "string \<Rightarrow> string \<Rightarrow> string" where
  "TrimPrefix s prefix = (if HasPrefix s prefix then drop (length prefix) s else s)"

definition TrimSuffix :: "string \<Rightarrow> string \<Rightarrow> string" where
  "TrimSuffix s suffix = (if HasSuffix s suffix then take (length s - length suffix) s else s)"

text \<open>\<open>strings.Contains\<close>: \<open>substr\<close> occurs in \<open>s\<close> as a contiguous block.\<close>

fun Contains :: "string \<Rightarrow> string \<Rightarrow> bool" where
  "Contains [] substr = (substr = [])"
| "Contains (c # s) substr = (HasPrefix (c # s) substr \<or> Contains s substr)"

definition ContainsAny :: "string \<Rightarrow> string \<Rightarrow> bool" where
  "ContainsAny s chars = list_ex (\<lambda>c. c \<in> set chars) s"

text \<open>\<open>strings.Split(s, sep)\<close> for a one-byte separator; the empty string splits into
  one empty part.\<close>

fun Split :: "string \<Rightarrow> char \<Rightarrow> string list" where
  "Split [] sep = [[]]"
| "Split (c # s) sep =
     (if c = sep then [] # Split s sep
      else (c # hd (Split s sep)) # tl (Split s sep))"

subsection \<open>UTF-8 and white space\<close>

text \<open>
  \<open>utf8.DecodeRuneInString\<close>: the rune at the start of a string and the number of bytes
  it takes. \<open>utf8_first\<close> is the library's table \<open>first\<close> with \<open>acceptRanges\<close>: for a
  byte that starts a multi-byte sequence, the length of the sequence and the range the
  second byte must lie in. An ill-formed or truncated sequence decodes to \<open>RuneError\<close>
  of width 1. The masks \<open>s0 & 0x1F\<close> and the shifts are written with \<open>mod\<close> and \<open>*\<close>.
\<close>

abbreviation rune :: "char \<Rightarrow> nat" where
  "rune c \<equiv> of_char c"

definition RuneError :: nat where
  "RuneError = 0xFFFD"

definition utf8_first :: "nat \<Rightarrow> (nat \<times> nat \<times> nat) option" where
  "utf8_first b =
     (if 0xC2 \<le> b \<and> b \<le> 0xDF then Some (2, 0x80, 0xBF)
      else if b = 0xE0 then Some (3, 0xA0, 0xBF)
      else if 0xE1 \<le> b \<and> b \<le> 0xEC then Some (3, 0x80, 0xBF)
      else if b = 0xED then Some (3, 0x80, 0x9F)
      else if 0xEE \<le> b \<and> b \<le> 0xEF then Some (3, 0x80, 0xBF)
      else if b = 0xF0 then Some (4, 0x90, 0xBF)
      else if 0xF1 \<le> b \<and> b \<le> 0xF3 then Some (4, 0x80, 0xBF)
      else if b = 0xF4 then Some (4, 0x80, 0x8F)
      else None)"

definition DecodeRuneInString :: "string \<Rightarrow> nat \<times> nat" where
  "DecodeRuneInString s =
     (case s of
        [] \<Rightarrow> (RuneError, 0)
      | c0 # t0 \<Rightarrow>
          (if rune c0 < 0x80 then (rune c0, 1)
           else
             (case utf8_first (rune c0) of
                None \<Rightarrow> (RuneError, 1)
              | Some (sz, lo, hi) \<Rightarrow>
                  (case t0 of
                     [] \<Rightarrow> (RuneError, 1)
                   | c1 # t1 \<Rightarrow>
                       (if length s < sz \<or> rune c1 < lo \<or> hi < rune c1 then (RuneError, 1)
                        else if sz \<le> 2 then (rune c0 mod 32 * 64 + rune c1 mod 64, 2)
                        else
                          (case t1 of
                             [] \<Rightarrow> (RuneError, 1)
                           | c2 # t2 \<Rightarrow>
                               (if rune c2 < 0x80 \<or> 0xBF < rune c2 then (RuneError, 1)
                                else if sz \<le> 3
                                then (rune c0 mod 16 * 4096 + rune c1 mod 64 * 64 + rune c2 mod 64, 3)
                                else
                                  (case t2 of
                                     [] \<Rightarrow> (RuneError, 1)
                                   | c3 # t3 \<Rightarrow>
                                       (if rune c3 < 0x80 \<or> 0xBF < rune c3 then (RuneError, 1)
                                        else (rune c0 mod 8 * 262144 + rune c1 mod 64 * 4096
                                              + rune c2 mod 64 * 64 + rune c3 mod 64, 4))))))))))"

text \<open>
  The loop \<open>for i, r := range s\<close>: the runes of a string in order, each with the bytes
  it was decoded from. (The width is at least 1 on a non-empty string, so the loop goes
  on after \<open>width - 1\<close> bytes of the tail.)
\<close>

fun range_string :: "string \<Rightarrow> (nat \<times> string) list" where
  "range_string [] = []"
| "range_string (c # t) =
     (fst (DecodeRuneInString (c # t)), take (snd (DecodeRuneInString (c # t))) (c # t))
       # range_string (drop (snd (DecodeRuneInString (c # t)) - 1) t)"

declare range_string.simps [simp del]

definition runes :: "string \<Rightarrow> nat list" where
  "runes s = map fst (range_string s)"


text \<open>\<open>unicode.IsSpace\<close>: the Latin-1 cases of its \<open>switch\<close>, and the table
  \<open>White_Space\<close> above them.\<close>

definition unicode_IsSpace :: "nat \<Rightarrow> bool" where
  "unicode_IsSpace r =
     (if r \<le> 0xFF then r \<in> set [0x09, 0x0A, 0x0B, 0x0C, 0x0D, 0x20, 0x85, 0xA0]
      else r = 0x1680 \<or> (0x2000 \<le> r \<and> r \<le> 0x200A) \<or> r = 0x2028 \<or> r = 0x2029
           \<or> r = 0x202F \<or> r = 0x205F \<or> r = 0x3000)"

text \<open>
  \<open>strings.FieldsFunc\<close>: the loop over the runes of the string that records the spans
  between runs of runes satisfying \<open>f\<close>. \<open>start\<close> is the span being read (the library
  keeps its start index, and \<open>start < 0\<close> when outside a span); the span after the last
  separator ends at the end of the string.
\<close>

fun fields_from :: "(nat \<Rightarrow> bool) \<Rightarrow> string option \<Rightarrow> (nat \<times> string) list \<Rightarrow> string list" where
  "fields_from f start [] = (case start of None \<Rightarrow> [] | Some field \<Rightarrow> [field])"
| "fields_from f start (seg # segs) =
     (if f (fst seg) then
        (case start of
           None \<Rightarrow> fields_from f None segs
         | Some field \<Rightarrow> field # fields_from f None segs)
      else
        fields_from f (Some (case start of None \<Rightarrow> snd seg | Some field \<Rightarrow> field @ snd seg)) segs)"

definition FieldsFunc :: "string \<Rightarrow> (nat \<Rightarrow> bool) \<Rightarrow> string list" where
  "FieldsFunc s f = fields_from f None (range_string s)"

text \<open>
  \<open>strings.Fields\<close> splits around runs of white space as \<open>unicode.IsSpace\<close> defines it.
  (On a string of ASCII bytes the library takes a faster path over the bytes with its
  table \<open>asciiSpace\<close>, which computes the same fields: an ASCII byte is its own rune,
  and the table holds the ASCII runes of \<open>unicode.IsSpace\<close>.)
\<close>

definition Fields :: "string \<Rightarrow> string list" where
  "Fields s = FieldsFunc s unicode_IsSpace"

text \<open>
  The table \<open>asciiSpace\<close> of package \<open>strings\<close>. \<open>TrimSpace\<close> and \<open>ToLower\<close> are called
  on domain names only; they are modelled on ASCII text, where they work byte by byte.
\<close>

definition isSpace :: "char \<Rightarrow> bool" where
  "isSpace c = (c \<in> set [CHR 0x09, CHR 0x0A, CHR 0x0B, CHR 0x0C, CHR 0x0D, CHR 0x20])"

definition TrimSpace :: "string \<Rightarrow> string" where
  "TrimSpace s = rev (dropWhile isSpace (rev (dropWhile isSpace s)))"

definition toLowerChar :: "char \<Rightarrow> char" where
  "toLowerChar c =
     (case map_of (zip ''ABCDEFGHIJKLMNOPQRSTUVWXYZ'' ''abcdefghijklmnopqrstuvwxyz'') c of
        None \<Rightarrow> c | Some l \<Rightarrow> l)"

definition ToLower :: "string \<Rightarrow> string" where
  "ToLower s = map toLowerChar s"

text \<open>\<open>fmt.Sprintf("%d", n)\<close>: the decimal digits of an integer.\<close>

fun digits :: "nat \<Rightarrow> string" where
  "digits n =
     (if n < 10 then [''0123456789'' ! n]
      else digits (n div 10) @ [''0123456789'' ! (n mod 10)])"

declare digits.simps [simp del]

definition itoa :: "int \<Rightarrow> string" where
  "itoa i = (if i < 0 then CHR ''-'' # digits (nat (- i)) else digits (nat i))"

section \<open>The violation pipeline (internal/sandbox/violation\_logger.go)\<close>

text \<open>The \<open>Violation\<close> struct. \<open>Timestamp\<close> is a \<open>time.Time\<close>, kept abstract as a
  number; \<open>Target\<close> and \<open>Operation\<close> carry no JSON tag and are filled in by
  \<open>parseViolation\<close>.\<close>

record Violation =
  Process :: string
  Message :: string
  Timestamp :: int
  Target :: string
  Operation :: string

definition parseViolation :: "Violation \<Rightarrow> Violation" where
  "parseViolation v =
     (let msg = Message v;
          v1 = (if Contains msg ''file-read'' then v\<lparr>Operation := ''file-read''\<rparr>
                else if Contains msg ''file-write'' then v\<lparr>Operation := ''file-write''\<rparr>
                else if Contains msg ''network'' then v\<lparr>Operation := ''network''\<rparr>
                else v);
          parts = Fields msg
      in if length parts > 0 then v1\<lparr>Target := last parts\<rparr> else v1)"

text \<open>The loop \<open>for _, pattern := range patterns\<close> of \<open>ShouldIgnoreViolation\<close>, which
  returns at the first pattern the target contains.\<close>

fun any_pattern_in :: "string \<Rightarrow> string list \<Rightarrow> bool" where
  "any_pattern_in target [] = False"
| "any_pattern_in target (pattern # patterns) =
     (if Contains target pattern then True else any_pattern_in target patterns)"

definition ShouldIgnoreViolation :: "Violation \<Rightarrow> (string \<rightharpoonup> string list) \<Rightarrow> bool" where
  "ShouldIgnoreViolation v ignoreMap =
     (if (case ignoreMap (Process v) of
            Some patterns \<Rightarrow> any_pattern_in (Target v) patterns
          | None \<Rightarrow> False) then True
      else (case ignoreMap ''*'' of
              Some patterns \<Rightarrow> any_pattern_in (Target v) patterns
            | None \<Rightarrow> False))"

text \<open>
  The last whitespace-delimited token of a message, in the specification's words: of
  the characters of the message, drop the white space at the end, then take the longest
  run of characters other than white space that ends there. \<open>last_run\<close> is that run in
  a list, \<open>last_token\<close> the bytes of that run of characters.
\<close>

definition last_run :: "('a \<Rightarrow> bool) \<Rightarrow> 'a list \<Rightarrow> 'a list" where
  "last_run sp xs = rev (takeWhile (\<lambda>x. \<not> sp x) (dropWhile sp (rev xs)))"

definition last_token :: "string \<Rightarrow> string" where
  "last_token msg =
     concat (map snd (last_run (\<lambda>seg. unicode_IsSpace (fst seg)) (range_string msg)))"

section \<open>The pattern compiler (internal/filesystem)\<close>

subsection \<open>Path normalisation\<close>

text \<open>
  \<open>NormalisePath\<close> calls the operating system: \<open>os.UserHomeDir\<close>, \<open>filepath.Join\<close>,
  \<open>filepath.Abs\<close> and \<open>filepath.EvalSymlinks\<close>. Their answers are the parameters of the
  model: \<open>None\<close> is the call's error, and \<open>EvalSymlinks\<close> either resolves the path,
  reports that it does not exist (\<open>os.IsNotExist\<close>), or fails otherwise.
\<close>

datatype glob_error =
    UnclosedCharClass
  | UnclosedBrace
  | HomeDirFailed
  | AbsFailed
  | EvalSymlinksFailed

datatype symlink_result = Resolved string | NotExist | OtherFailure

record os_env =
  os_UserHomeDir :: "string option"
  filepath_Join :: "string \<Rightarrow> string \<Rightarrow> string"
  filepath_Abs :: "string \<Rightarrow> string option"
  filepath_EvalSymlinks :: "string \<Rightarrow> symlink_result"

definition NormalisePath :: "os_env \<Rightarrow> string \<Rightarrow> glob_error + string" where
  "NormalisePath env path =
     (case (if HasPrefix path ''~''
            then (case os_UserHomeDir env of
                    None \<Rightarrow> Inl HomeDirFailed
                  | Some home \<Rightarrow> Inr (filepath_Join env home (drop 1 path)))
            else Inr path) of
        Inl e \<Rightarrow> Inl e
      | Inr p \<Rightarrow>
          (case filepath_Abs env p of
             None \<Rightarrow> Inl AbsFailed
           | Some absPath \<Rightarrow>
               (case filepath_EvalSymlinks env absPath of
                  Resolved resolvedPath \<Rightarrow> Inr resolvedPath
                | NotExist \<Rightarrow> Inr absPath
                | OtherFailure \<Rightarrow> Inl EvalSymlinksFailed)))"

text \<open>
  An operating system for examples: the working directory is \<open>cwd\<close>, no home directory
  is known, and no path exists (so no symbolic link is resolved).
\<close>

definition cwd_env :: "string \<Rightarrow> os_env" where
  "cwd_env cwd =
     \<lparr>os_UserHomeDir = None,
      filepath_Join = (\<lambda>a b. a @ ''/'' @ b),
      filepath_Abs = (\<lambda>p. if HasPrefix p ''/'' then Some p else Some (cwd @ ''/'' @ p)),
      filepath_EvalSymlinks = (\<lambda>p. NotExist)\<rparr>"

definition ContainsGlob :: "string \<Rightarrow> bool" where
  "ContainsGlob path = ContainsAny path ''*?[{''"

subsection \<open>GlobToRegex\<close>

text \<open>
  The result of a compilation: \<open>Some (Inr regex)\<close> is the returned pattern text,
  \<open>Some (Inl e)\<close> the returned error, and \<open>None\<close> says that the recursion ran deeper than
  the fuel allows. \<open>GlobToRegex\<close> calls itself on every alternative of a brace group, and
  an alternative without glob characters is normalised first, so the text it goes on
  to scan comes from the operating system: the depth of the recursion is not bounded
  by the pattern alone. The fuel is that depth.
\<close>

type_synonym compiled = "(glob_error + string) option"

text \<open>\<open>result.WriteString(chunk)\<close>, followed by the rest of the scan \<open>r\<close>.\<close>

definition WriteString :: "string \<Rightarrow> compiled \<Rightarrow> compiled" where
  "WriteString chunk r =
     (case r of
        None \<Rightarrow> None
      | Some (Inl e) \<Rightarrow> Some (Inl e)
      | Some (Inr out) \<Rightarrow> Some (Inr (chunk @ out)))"

text \<open>
  The scan for the end of a brace group: \<open>for j < len(pattern) && depth > 0\<close>, started
  with \<open>depth = 1\<close> on the text after the opening brace. The result is the number of
  characters read when the depth reaches zero (the last of them is the closing brace),
  or \<open>None\<close> when the text ends first.
\<close>

fun brace_end :: "nat \<Rightarrow> string \<Rightarrow> nat option" where
  "brace_end 0 s = Some 0"
| "brace_end (Suc d) [] = None"
| "brace_end (Suc d) (c # s) =
     map_option Suc
       (brace_end (if c = CHR ''{'' then Suc (Suc d) else if c = CHR ''}'' then d else Suc d) s)"

text \<open>
  The loop over the alternatives of a group, \<open>for idx, part := range parts\<close>; \<open>rec\<close> is
  the recursive call of \<open>GlobToRegex\<close>.
\<close>

fun convert_parts :: "(string \<Rightarrow> compiled) \<Rightarrow> nat \<Rightarrow> string list \<Rightarrow> compiled" where
  "convert_parts rec idx [] = Some (Inr [])"
| "convert_parts rec idx (part # parts) =
     (case rec part of
        None \<Rightarrow> None
      | Some (Inl e) \<Rightarrow> Some (Inl e)
      | Some (Inr converted) \<Rightarrow>
          WriteString ((if idx > 0 then ''|'' else []) @ TrimSuffix (TrimPrefix converted ''^'') ''$'')
            (convert_parts rec (Suc idx) parts))"

text \<open>
  The main loop \<open>for i < len(pattern)\<close>, on the text from position \<open>i\<close> on. Each branch
  of the \<open>switch\<close> writes its piece and moves \<open>i\<close> forward; here it recurses on the text
  that is left.
\<close>

function convert :: "(string \<Rightarrow> compiled) \<Rightarrow> string \<Rightarrow> compiled" where
  "convert rec [] = Some (Inr [])"
| "convert rec (ch # rest) =
     (if ch = CHR ''*'' then
        (if rest \<noteq> [] \<and> hd rest = CHR ''*'' then
           WriteString ''.*''
             (convert rec (if tl rest \<noteq> [] \<and> hd (tl rest) = CHR ''/'' then tl (tl rest) else tl rest))
         else WriteString ''[^/]*'' (convert rec rest))
      else if ch = CHR ''?'' then WriteString ''[^/]'' (convert rec rest)
      else if ch = CHR ''['' then
        (if CHR '']'' \<notin> set rest then Some (Inl UnclosedCharClass)
         else WriteString (CHR ''['' # takeWhile (\<lambda>c. c \<noteq> CHR '']'') rest @ '']'')
                (convert rec (tl (dropWhile (\<lambda>c. c \<noteq> CHR '']'') rest))))
      else if ch = CHR ''{'' then
        (case brace_end 1 rest of
           None \<Rightarrow> Some (Inl UnclosedBrace)
         | Some k \<Rightarrow>
             (case convert_parts rec 0 (Split (take (k - 1) rest) CHR '','') of
                None \<Rightarrow> None
              | Some (Inl e) \<Rightarrow> Some (Inl e)
              | Some (Inr alts) \<Rightarrow> WriteString (''('' @ alts @ '')'') (convert rec (drop k rest))))
      else if ch \<in> set (''.+^$()|'' @ [backslash]) then WriteString [backslash, ch] (convert rec rest)
      else WriteString [ch] (convert rec rest))"
  by pat_completeness auto
termination
  by (relation "measure (\<lambda>(rec, s). length s)")
     (auto simp: less_Suc_eq_le intro!: order_trans [OF diff_le_self length_dropWhile_le])

declare convert.simps [simp del]

primrec GlobToRegex :: "os_env \<Rightarrow> nat \<Rightarrow> string \<Rightarrow> compiled" where
  "GlobToRegex env 0 pattern = None"
| "GlobToRegex env (Suc fuel) pattern =
     (case (if \<not> ContainsGlob pattern then NormalisePath env pattern else Inr pattern) of
        Inl e \<Rightarrow> Some (Inl e)
      | Inr p \<Rightarrow>
          WriteString ''^''
            (case convert (GlobToRegex env fuel) p of
               None \<Rightarrow> None
             | Some (Inl e) \<Rightarrow> Some (Inl e)
             | Some (Inr body) \<Rightarrow> Some (Inr (body @ ''$''))))"

subsection \<open>The emitted regular expressions\<close>

text \<open>
  \<open>MatchGlob\<close> hands the compiled text to \<open>regexp.MatchString\<close>, which is library code.
  The model gives Go's meaning to the constructs the compiler emits outside brace
  groups. A pattern text that is not well-formed UTF-8 does not compile; a well-formed
  one is read rune by rune. An atom is \<open>.\<close> (any character but a line feed), a bracket class,
  an escaped punctuation character or a plain character, and an atom may carry a star.
  A bracket class is read as Go reads it when its text is plain: after an optional
  \<open>^\<close> (negation; a negated class accepts the line feed), at least one character, no
  \<open>[\<close> and no backslash in it, closed by the first \<open>]\<close>; its elements are single
  characters and ranges \<open>lo-hi\<close>, a \<open>-\<close> with no character after it standing for
  itself. \<open>^\<close> and \<open>$\<close> anchor the match at the start and at the end of the subject.
  Every other text (groups, other quantifiers, other classes, a range whose bounds are
  out of order) is outside the model and parses to \<open>None\<close>. The subject string is
  matched rune by rune too, a byte that is not well-formed UTF-8 counting as
  \<open>RuneError\<close>.
\<close>

datatype ratom = Dot | Class bool "(nat \<times> nat) list" | Lit nat

datatype ritem = One ratom | Star ratom

fun atom_match :: "ratom \<Rightarrow> nat \<Rightarrow> bool" where
  "atom_match Dot r = (r \<noteq> rune newline)"
| "atom_match (Class negated ranges) r =
     (list_ex (\<lambda>range. fst range \<le> r \<and> r \<le> snd range) ranges \<noteq> negated)"
| "atom_match (Lit c) r = (r = c)"

fun class_ranges :: "nat list \<Rightarrow> (nat \<times> nat) list option" where
  "class_ranges [] = Some []"
| "class_ranges (lo # d # hi # rest) =
     (if d = rune CHR ''-'' then
        (if hi < lo then None else map_option (Cons (lo, hi)) (class_ranges rest))
      else map_option (Cons (lo, lo)) (class_ranges (d # hi # rest)))"
| "class_ranges (lo # rest) = map_option (Cons (lo, lo)) (class_ranges rest)"

text \<open>The bracket class whose text follows an opening \<open>[\<close>, and the text after it.\<close>

definition read_class :: "nat list \<Rightarrow> (ratom \<times> nat list) option" where
  "read_class r =
     (let negated = (r \<noteq> [] \<and> hd r = rune CHR ''^'');
          t = (if negated then tl r else r);
          content = takeWhile (\<lambda>x. x \<noteq> rune CHR '']'') t
      in if rune CHR '']'' \<notin> set t \<or> content = [] \<or> rune backslash \<in> set content
            \<or> rune CHR ''['' \<in> set content then None
         else (case class_ranges content of
                 None \<Rightarrow> None
               | Some ranges \<Rightarrow> Some (Class negated ranges, drop (Suc (length content)) t)))"

definition parse_atom :: "nat \<Rightarrow> nat list \<Rightarrow> (ratom \<times> nat list) option" where
  "parse_atom c r =
     (if c = rune CHR ''.'' then Some (Dot, r)
      else if c = rune CHR ''['' then read_class r
      else if c = rune backslash then
        (if r \<noteq> [] \<and> hd r \<in> set (map rune (''.+*?()|[]{}^$'' @ [backslash]))
         then Some (Lit (hd r), tl r) else None)
      else if c \<in> set (map rune ''*+?()|{^$'') then None
      else Some (Lit c, r))"

definition add_item :: "ritem \<Rightarrow> (ritem list \<times> bool) option \<Rightarrow> (ritem list \<times> bool) option" where
  "add_item i r = (case r of None \<Rightarrow> None | Some (items, anchored) \<Rightarrow> Some (i # items, anchored))"

function parse_body :: "nat list \<Rightarrow> (ritem list \<times> bool) option" where
  "parse_body [] = Some ([], False)"
| "parse_body (c # r) =
     (if c = rune CHR ''$'' \<and> r = [] then Some ([], True)
      else
        (case parse_atom c r of
           None \<Rightarrow> None
         | Some (a, rest) \<Rightarrow>
             (if rest \<noteq> [] \<and> hd rest = rune CHR ''*'' then
                (if tl rest \<noteq> [] \<and> hd (tl rest) \<in> set (map rune ''*+?'') then None
                 else add_item (Star a) (parse_body (tl rest)))
              else if rest \<noteq> [] \<and> hd rest \<in> set (map rune ''+?{'') then None
              else add_item (One a) (parse_body rest))))"
  by pat_completeness auto
termination
proof (relation "measure length")
  show "wf (measure length)" by simp
next
  fix c :: nat and r x2 x y
  assume "parse_atom c r = Some x2" and "(x, y) = x2"
  then have "length y \<le> length r"
    by (auto simp: parse_atom_def read_class_def Let_def split: if_splits option.splits)
  then show "(tl y, c # r) \<in> measure length" by simp
next
  fix c :: nat and r x2 x y
  assume "parse_atom c r = Some x2" and "(x, y) = x2"
  then have "length y \<le> length r"
    by (auto simp: parse_atom_def read_class_def Let_def split: if_splits option.splits)
  then show "(y, c # r) \<in> measure length" by simp
qed

declare parse_body.simps [simp del]




subsection \<open>What the compiler is specified to accept\<close>







text \<open>
  A pattern has an unclosed bracket when some \<open>[\<close> has no \<open>]\<close> after it. It has an
  unclosed brace group when, after a prefix all of whose brackets are closed, a \<open>{\<close>
  opens a group whose nesting depth never returns to zero: in every prefix of the text
  after it the closing braces do not outnumber the opening ones.
\<close>

definition unclosed_bracket :: "string \<Rightarrow> bool" where
  "unclosed_bracket p = (\<exists>pre rest. p = pre @ CHR ''['' # rest \<and> CHR '']'' \<notin> set rest)"

definition never_closes :: "string \<Rightarrow> bool" where
  "never_closes rest =
     (\<forall>k\<le>length rest. count_list (take k rest) (CHR ''}'') \<le> count_list (take k rest) (CHR ''{''))"

definition unclosed_brace :: "string \<Rightarrow> bool" where
  "unclosed_brace p =
     (\<exists>pre rest. p = pre @ CHR ''{'' # rest \<and> \<not> unclosed_bracket pre \<and> never_closes rest)"

text \<open>The operating system hands back no path with an opening brace in it.\<close>

definition brace_free_paths :: "os_env \<Rightarrow> bool" where
  "brace_free_paths env =
     (\<forall>path normPath. NormalisePath env path = Inr normPath \<longrightarrow> \<not> ContainsGlob path
        \<longrightarrow> CHR ''{'' \<notin> set normPath)"

section \<open>The profile generator and validator (internal/sandbox/seatbelt.go)\<close>

datatype profile_error = GlobConvertFailed string glob_error

type_synonym generated = "(profile_error + string) option"

text \<open>
  The loop \<open>for _, path := range paths\<close>. \<open>GenerateSeatbeltProfile\<close> has it four times,
  the same but for the operation and the action written into the rule: \<open>verb\<close> is
  that text, \<open>deny file-read*\<close> in the first loop. The loop returns at the first
  pattern that fails to compile.
\<close>

fun write_rules :: "os_env \<Rightarrow> nat \<Rightarrow> string \<Rightarrow> string list \<Rightarrow> generated" where
  "write_rules env fuel verb [] = Some (Inr [])"
| "write_rules env fuel verb (path # paths) =
     (if ContainsGlob path then
        (case GlobToRegex env fuel path of
           None \<Rightarrow> None
         | Some (Inl err) \<Rightarrow> Some (Inl (GlobConvertFailed path err))
         | Some (Inr regex) \<Rightarrow>
             (case write_rules env fuel verb paths of
                None \<Rightarrow> None
              | Some (Inl e) \<Rightarrow> Some (Inl e)
              | Some (Inr out) \<Rightarrow>
                  Some (Inr (''('' @ verb @ '' (regex #'' @ [dquote] @ regex @ [dquote] @ ''))\<newline>'' @ out))))
      else
        (case write_rules env fuel verb paths of
           None \<Rightarrow> None
         | Some (Inl e) \<Rightarrow> Some (Inl e)
         | Some (Inr out) \<Rightarrow>
             Some (Inr (''('' @ verb @ '' (subpath '' @ [dquote] @ path @ [dquote] @ ''))\<newline>'' @ out))))"

text \<open>\<open>if len(paths) > 0 { comment; loop; blank line }\<close>\<close>

definition write_section :: "os_env \<Rightarrow> nat \<Rightarrow> string \<Rightarrow> string \<Rightarrow> string list \<Rightarrow> generated" where
  "write_section env fuel comment verb paths =
     (if length paths > 0 then
        (case write_rules env fuel verb paths of
           None \<Rightarrow> None
         | Some (Inl e) \<Rightarrow> Some (Inl e)
         | Some (Inr rules) \<Rightarrow> Some (Inr (comment @ rules @ ''\<newline>'')))
      else Some (Inr []))"

definition GenerateSeatbeltProfile ::
  "os_env \<Rightarrow> nat \<Rightarrow> int \<Rightarrow> int \<Rightarrow> bool \<Rightarrow> string list \<Rightarrow> string list \<Rightarrow> string list \<Rightarrow> string list
     \<Rightarrow> bool \<Rightarrow> bool \<Rightarrow> bool \<Rightarrow> bool \<Rightarrow> generated" where
  "GenerateSeatbeltProfile env fuel httpProxyPort socksProxyPort enableProxy
       denyReadPaths allowWritePaths denyWritePaths allowUnlinkPaths
       allowFork allowSysctlRead allowMachLookup allowPosixShm =
     (let sb1 =
            ''(version 1)\<newline>\<newline>''
            @ ''; Process operations\<newline>''
            @ ''(allow process-exec*)\<newline>''
            @ (if allowFork then ''(allow process-fork)\<newline>'' else [])
            @ (if allowSysctlRead then ''(allow sysctl-read)\<newline>'' else [])
            @ (if allowMachLookup then ''(allow mach-lookup)\<newline>'' else [])
            @ (if allowPosixShm then ''(allow ipc-posix-shm*)\<newline>'' else [])
            @ ''\<newline>''
            @ (if enableProxy then
                 ''; Network - deny all except proxies\<newline>''
                 @ ''(deny network*)\<newline>''
                 @ ''(allow network* (remote ip '' @ [dquote] @ ''localhost:'' @ itoa httpProxyPort
                     @ [dquote] @ ''))\<newline>''
                 @ ''(allow network* (remote ip '' @ [dquote] @ ''localhost:'' @ itoa socksProxyPort
                     @ [dquote] @ ''))\<newline>''
                 @ ''\<newline>''
               else
                 ''; Network - deny all\<newline>''
                 @ ''(deny network*)\<newline>\<newline>'')
            @ ''; Filesystem reads - allow by default\<newline>''
            @ ''(allow file-read*)\<newline>\<newline>''
      in case write_section env fuel ''; Deny specific read paths\<newline>'' ''deny file-read*'' denyReadPaths of
           None \<Rightarrow> None
         | Some (Inl e) \<Rightarrow> Some (Inl e)
         | Some (Inr sb2) \<Rightarrow>
      (case write_section env fuel ''; Allow writes to specific paths\<newline>'' ''allow file-write*''
              allowWritePaths of
           None \<Rightarrow> None
         | Some (Inl e) \<Rightarrow> Some (Inl e)
         | Some (Inr sb3) \<Rightarrow>
      (case write_section env fuel ''; Deny specific writes within allowed paths\<newline>'' ''deny file-write*''
              denyWritePaths of
           None \<Rightarrow> None
         | Some (Inl e) \<Rightarrow> Some (Inl e)
         | Some (Inr sb4) \<Rightarrow>
      (case write_section env fuel ''; Allow unlink in specific paths\<newline>'' ''allow file-write-unlink''
              allowUnlinkPaths of
           None \<Rightarrow> None
         | Some (Inl e) \<Rightarrow> Some (Inl e)
         | Some (Inr sb5) \<Rightarrow>
             Some (Inr (sb1 @ sb2
                        @ ''; Filesystem writes - deny by default\<newline>''
                        @ ''(deny file-write*)\<newline>\<newline>''
                        @ sb3 @ sb4
                        @ ''; File unlink/deletion - deny by default\<newline>''
                        @ ''(deny file-write-unlink)\<newline>\<newline>''
                        @ sb5))))))"

text \<open>\<open>hasBalancedParentheses\<close>: the loop over the characters, with its counter.\<close>

fun balanced_from :: "int \<Rightarrow> string \<Rightarrow> bool" where
  "balanced_from count [] = (count = 0)"
| "balanced_from count (ch # s) =
     (if ch = CHR ''('' then balanced_from (count + 1) s
      else if ch = CHR '')'' then (if count - 1 < 0 then False else balanced_from (count - 1) s)
      else balanced_from count s)"

definition hasBalancedParentheses :: "string \<Rightarrow> bool" where
  "hasBalancedParentheses s = balanced_from 0 s"

text \<open>
  \<open>ValidateProfile\<close> runs two external commands: \<open>cat\<close> on the profile, and
  \<open>sandbox-exec -f profile /usr/bin/true\<close>. The world says what each answers (for
  \<open>cat\<close> the output, \<open>None\<close> when it fails; for \<open>sandbox-exec\<close> \<open>None\<close> when it exits with
  zero, the combined output otherwise), and the model returns, with the error, the
  list of the commands it ran, in order.
\<close>

datatype validate_error =
    ReadFailed
  | MissingVersion
  | UnbalancedParentheses
  | MissingStatements
  | LiveTestFailed string

datatype command = Cat string | SandboxExec string

record exec_world =
  cat_output :: "string \<Rightarrow> string option"
  sandbox_exec_failure :: "string \<Rightarrow> string option"

definition ValidateProfile :: "exec_world \<Rightarrow> string \<Rightarrow> validate_error option \<times> command list" where
  "ValidateProfile w profilePath =
     (case cat_output w profilePath of
        None \<Rightarrow> (Some ReadFailed, [Cat profilePath])
      | Some profileStr \<Rightarrow>
          if \<not> Contains profileStr ''(version 1)'' then (Some MissingVersion, [Cat profilePath])
          else if \<not> hasBalancedParentheses profileStr then
            (Some UnbalancedParentheses, [Cat profilePath])
          else if \<not> Contains profileStr ''(deny '' \<and> \<not> Contains profileStr ''(allow '' then
            (Some MissingStatements, [Cat profilePath])
          else
            (case sandbox_exec_failure w profilePath of
               Some output \<Rightarrow> (Some (LiveTestFailed output), [Cat profilePath, SandboxExec profilePath])
             | None \<Rightarrow> (None, [Cat profilePath, SandboxExec profilePath])))"

text \<open>The three static checks, as the specification lists them.\<close>

definition static_ok :: "string \<Rightarrow> bool" where
  "static_ok profile =
     (Contains profile ''(version 1)''
      \<and> hasBalancedParentheses profile
      \<and> (Contains profile ''(deny '' \<or> Contains profile ''(allow ''))"

text \<open>
  The layout of a generated profile, in the specification's words: a rule for a path
  is a regex rule with the compiled pattern when the path has glob syntax and a
  subpath rule otherwise; a list of rules is written under its comment line and closed
  by a blank line, or left out when it is empty.
\<close>

definition rule_for :: "os_env \<Rightarrow> nat \<Rightarrow> string \<Rightarrow> string \<Rightarrow> string \<Rightarrow> bool" where
  "rule_for env fuel verb path line =
     (if ContainsGlob path
      then (\<exists>regex. GlobToRegex env fuel path = Some (Inr regex)
              \<and> line = ''('' @ verb @ '' (regex #'' @ [dquote] @ regex @ [dquote] @ ''))\<newline>'')
      else line = ''('' @ verb @ '' (subpath '' @ [dquote] @ path @ [dquote] @ ''))\<newline>'')"

definition titled :: "string \<Rightarrow> string list \<Rightarrow> string" where
  "titled comment rules = (if rules = [] then [] else comment @ concat rules @ ''\<newline>'')"

definition proxy_rule :: "int \<Rightarrow> string" where
  "proxy_rule port =
     ''(allow network* (remote ip '' @ [dquote] @ ''localhost:'' @ itoa port @ [dquote] @ ''))\<newline>''"

section \<open>The domain filter (internal/network)\<close>

text \<open>
  A compiled wildcard pattern is a \<open>glob.Glob\<close> of the library \<open>gobwas/glob\<close>; the model
  keeps its \<open>Match\<close> method. \<open>glob.Compile\<close>, a parameter of the model, returns it, or
  \<open>None\<close> for its error. A pattern without wildcard has no compiled form (\<open>nil\<close>), which
  \<open>Matches\<close> never calls.
\<close>

record DomainPattern =
  dp_pattern :: string
  dp_isGlob :: bool
  dp_compiled :: "(string \<Rightarrow> bool) option"

record DomainFilter =
  df_allowed :: "DomainPattern list"
  df_denied :: "DomainPattern list"
  df_defaultPolicy :: string

text \<open>\<open>domain[:strings.LastIndex(domain, ":")]\<close> when there is a colon.\<close>

definition strip_port :: "string \<Rightarrow> string" where
  "strip_port domain =
     (if CHR '':'' \<in> set domain then rev (tl (dropWhile (\<lambda>c. c \<noteq> CHR '':'') (rev domain)))
      else domain)"

definition normaliseDomain :: "string \<Rightarrow> string" where
  "normaliseDomain domain = ToLower (TrimSpace (strip_port domain))"

definition Matches :: "DomainPattern \<Rightarrow> string \<Rightarrow> bool" where
  "Matches p domain =
     (let d = normaliseDomain domain
      in if dp_isGlob p then (case dp_compiled p of Some match \<Rightarrow> match d | None \<Rightarrow> False)
         else d = dp_pattern p)"

definition compileDomainPattern ::
  "(string \<Rightarrow> (string \<Rightarrow> bool) option) \<Rightarrow> string \<Rightarrow> DomainPattern option" where
  "compileDomainPattern glob_Compile pattern =
     (let p = ToLower (TrimSpace pattern)
      in if Contains p ''*'' then
           (case glob_Compile p of
              None \<Rightarrow> None
            | Some compiled \<Rightarrow> Some \<lparr>dp_pattern = p, dp_isGlob = True, dp_compiled = Some compiled\<rparr>)
         else Some \<lparr>dp_pattern = p, dp_isGlob = False, dp_compiled = None\<rparr>)"

text \<open>The two loops of \<open>NewDomainFilter\<close>, which return at the first pattern that does not
  compile.\<close>

fun compile_all ::
  "(string \<Rightarrow> (string \<Rightarrow> bool) option) \<Rightarrow> string list \<Rightarrow> DomainPattern list option" where
  "compile_all glob_Compile [] = Some []"
| "compile_all glob_Compile (domain # domains) =
     (case compileDomainPattern glob_Compile domain of
        None \<Rightarrow> None
      | Some pattern \<Rightarrow>
          (case compile_all glob_Compile domains of
             None \<Rightarrow> None
           | Some patterns \<Rightarrow> Some (pattern # patterns)))"

definition NewDomainFilter ::
  "(string \<Rightarrow> (string \<Rightarrow> bool) option) \<Rightarrow> string \<Rightarrow> string list \<Rightarrow> string list \<Rightarrow> DomainFilter option" where
  "NewDomainFilter glob_Compile defaultPolicy allowedDomains deniedDomains =
     (let policy = (if defaultPolicy \<noteq> ''allow'' \<and> defaultPolicy \<noteq> ''deny'' then ''allow''
                    else defaultPolicy)
      in case compile_all glob_Compile allowedDomains of
           None \<Rightarrow> None
         | Some allowed \<Rightarrow>
             (case compile_all glob_Compile deniedDomains of
                None \<Rightarrow> None
              | Some denied \<Rightarrow>
                  Some \<lparr>df_allowed = allowed, df_denied = denied, df_defaultPolicy = policy\<rparr>))"

text \<open>The loop \<open>for _, pattern := range patterns\<close> of \<open>IsAllowed\<close>, left at the first
  match.\<close>

fun any_matches :: "DomainPattern list \<Rightarrow> string \<Rightarrow> bool" where
  "any_matches [] domain = False"
| "any_matches (pattern # patterns) domain =
     (if Matches pattern domain then True else any_matches patterns domain)"

definition IsAllowed :: "DomainFilter \<Rightarrow> string \<Rightarrow> bool" where
  "IsAllowed f domain =
     (let d = normaliseDomain domain
      in if any_matches (df_denied f) d then False
         else if any_matches (df_allowed f) d then True
         else df_defaultPolicy f = ''allow'')"

section \<open>The orchestrator (Manager)\<close>

text \<open>
  Of \<open>config.Config\<close> the modelled code reads the network section only. A proxy is
  modelled by its port and its filter. The world gives what the constructors ask of
  the system: \<open>glob.Compile\<close>, the two calls of \<open>net.Listen\<close> (the port the listener is
  bound to, \<open>None\<close> when binding fails), whether \<open>socks5.New\<close> succeeds, and the command
  identifier (\<open>generateCommandID\<close> encodes the process id).
\<close>

record NetworkConfig =
  DefaultPolicy :: string
  AllowedDomains :: "string list"
  DeniedDomains :: "string list"
  AllowUnixSockets :: "string list"
  AllowLocalBinding :: bool
  HTTPProxyPort :: int
  SOCKSProxyPort :: int

record Config =
  Network :: NetworkConfig

record Proxy =
  proxy_port :: int
  proxy_filter :: DomainFilter

record Manager =
  config :: Config
  httpProxy :: "Proxy option"
  socksProxy :: "Proxy option"
  commandID :: string

record net_world =
  glob_Compile :: "string \<Rightarrow> (string \<Rightarrow> bool) option"
  listen_http :: "int \<Rightarrow> int option"
  socks5_New_ok :: bool
  listen_socks :: "int \<Rightarrow> int option"
  generateCommandID :: string

datatype manager_error = DomainFilterFailed | HTTPProxyFailed | SOCKSProxyFailed

definition needsNetworkProxy :: "Config \<Rightarrow> bool" where
  "needsNetworkProxy cfg =
     (if length (AllowedDomains (Network cfg)) > 0 then True
      else if DefaultPolicy (Network cfg) = ''allow'' then True
      else False)"

definition NewHTTPProxy :: "net_world \<Rightarrow> DomainFilter \<Rightarrow> int \<Rightarrow> Proxy option" where
  "NewHTTPProxy w domainFilter port =
     (case listen_http w port of
        None \<Rightarrow> None
      | Some actual \<Rightarrow>
          Some \<lparr>proxy_port = (if port = 0 then actual else port), proxy_filter = domainFilter\<rparr>)"

definition NewSOCKSProxy :: "net_world \<Rightarrow> DomainFilter \<Rightarrow> int \<Rightarrow> Proxy option" where
  "NewSOCKSProxy w domainFilter port =
     (if \<not> socks5_New_ok w then None
      else case listen_socks w port of
             None \<Rightarrow> None
           | Some actual \<Rightarrow>
               Some \<lparr>proxy_port = (if port = 0 then actual else port), proxy_filter = domainFilter\<rparr>)"

definition NewManager :: "net_world \<Rightarrow> Config \<Rightarrow> manager_error + Manager" where
  "NewManager w cfg =
     (if needsNetworkProxy cfg then
        (case NewDomainFilter (glob_Compile w) (DefaultPolicy (Network cfg))
                (AllowedDomains (Network cfg)) (DeniedDomains (Network cfg)) of
           None \<Rightarrow> Inl DomainFilterFailed
         | Some domainFilter \<Rightarrow>
             (case NewHTTPProxy w domainFilter (HTTPProxyPort (Network cfg)) of
                None \<Rightarrow> Inl HTTPProxyFailed
              | Some http \<Rightarrow>
                  (let cfg1 = cfg\<lparr>Network := (Network cfg)\<lparr>HTTPProxyPort := proxy_port http\<rparr>\<rparr>
                   in case NewSOCKSProxy w domainFilter (SOCKSProxyPort (Network cfg1)) of
                        None \<Rightarrow> Inl SOCKSProxyFailed
                      | Some socks \<Rightarrow>
                          Inr \<lparr>config = cfg1\<lparr>Network := (Network cfg1)\<lparr>SOCKSProxyPort := proxy_port socks\<rparr>\<rparr>,
                               httpProxy = Some http, socksProxy = Some socks,
                               commandID = generateCommandID w\<rparr>)))
      else Inr \<lparr>config = cfg, httpProxy = None, socksProxy = None,
                commandID = generateCommandID w\<rparr>)"

text \<open>
  The environment \<open>Manager.Execute\<close> gives the child process (\<open>cmd.Env\<close>): the parent's
  own environment \<open>os.Environ()\<close>, then the command identifier, then the proxy
  variables when both proxies exist. Nothing before this point of \<open>Execute\<close> changes the
  proxies, the ports or the identifier.
\<close>

definition proxyEnabled :: "Manager \<Rightarrow> bool" where
  "proxyEnabled m = (httpProxy m \<noteq> None \<and> socksProxy m \<noteq> None)"

definition Execute_Env :: "Manager \<Rightarrow> string list \<Rightarrow> string list" where
  "Execute_Env m os_Environ =
     (let env1 = os_Environ @ [''SRT_COMMAND_ID='' @ commandID m]
      in if proxyEnabled m then
           env1 @ [''HTTP_PROXY=http://localhost:'' @ itoa (HTTPProxyPort (Network (config m))),
                   ''HTTPS_PROXY=http://localhost:'' @ itoa (HTTPProxyPort (Network (config m))),
                   ''ALL_PROXY=socks5://localhost:'' @ itoa (SOCKSProxyPort (Network (config m)))]
         else env1)"

text \<open>An environment sets a variable when one of its entries starts with the name and
  an equals sign.\<close>

definition sets_var :: "string list \<Rightarrow> string \<Rightarrow> bool" where
  "sets_var env name = list_ex (\<lambda>entry. HasPrefix entry (name @ ''='')) env"

definition sets_proxy_var :: "string list \<Rightarrow> bool" where
  "sets_proxy_var env =
     (sets_var env ''HTTP_PROXY'' \<or> sets_var env ''HTTPS_PROXY'' \<or> sets_var env ''ALL_PROXY'')"

section \<open>Properties of the violation pipeline\<close>

lemma Contains_empty: "Contains s []"
  by (cases s) (simp_all add: HasPrefix_def)

lemma any_pattern_in_empty: "[] \<in> set patterns \<Longrightarrow> any_pattern_in target patterns"
  by (induction patterns) (auto simp: Contains_empty)

text \<open>
  Claim C10. If the pattern list stored under the violation's process name, or the one
  stored under the wildcard key \<open>*\<close>, contains the empty string, then
  \<open>ShouldIgnoreViolation\<close> answers true whatever the target is: the test is substring
  containment, and the empty string is contained in every string.
\<close>

theorem ShouldIgnoreViolation_empty_pattern:
  assumes "(\<exists>patterns. ignoreMap (Process v) = Some patterns \<and> [] \<in> set patterns)
         \<or> (\<exists>patterns. ignoreMap ''*'' = Some patterns \<and> [] \<in> set patterns)"
  shows "ShouldIgnoreViolation v ignoreMap"
  using assms
  by (auto simp: ShouldIgnoreViolation_def any_pattern_in_empty split: option.splits)

theorem ShouldIgnoreViolation_empty_pattern_witness:
  "ShouldIgnoreViolation
     \<lparr>Process = ''git'', Message = ''deny(1) file-read-data /etc/passwd'', Timestamp = 0,
      Target = ''/etc/passwd'', Operation = ''file-read''\<rparr>
     [''*'' \<mapsto> [''/usr/bin'', '''']]
   \<and> \<not> Contains ''/etc/passwd'' ''/usr/bin''"
proof -
  have "ShouldIgnoreViolation
     \<lparr>Process = ''git'', Message = ''deny(1) file-read-data /etc/passwd'', Timestamp = 0,
      Target = ''/etc/passwd'', Operation = ''file-read''\<rparr>
     [''*'' \<mapsto> [''/usr/bin'', '''']]"
    by (rule ShouldIgnoreViolation_empty_pattern) simp
  moreover have "\<not> Contains ''/etc/passwd'' ''/usr/bin''"
    by (simp add: HasPrefix_def)
  ultimately show ?thesis by simp
qed

subsection \<open>Classification\<close>

lemma takeWhile_stop: "\<not> P c \<Longrightarrow> takeWhile P (ys @ c # zs) = takeWhile P ys"
  by (induction ys) auto

lemma last_run_word:
  assumes "\<forall>x\<in>set cur. \<not> sp x"
  shows "last_run sp cur = cur"
proof -
  have dw: "dropWhile sp (rev cur) = rev cur"
    using assms by (cases "rev cur") (auto simp: rev_swap [symmetric])
  have tw: "takeWhile (\<lambda>x. \<not> sp x) (rev cur) = rev cur"
    by (rule takeWhile_eq_all_conv [THEN iffD2]) (use assms in simp)
  show ?thesis
    unfolding last_run_def dw tw by simp
qed

lemma last_run_trailing:
  assumes "\<forall>x\<in>set tr. sp x"
  shows "last_run sp (xs @ tr) = last_run sp xs"
proof -
  have "dropWhile sp (rev tr @ rev xs) = dropWhile sp (rev xs)"
    by (rule dropWhile_append2) (use assms in auto)
  then show ?thesis by (simp add: last_run_def)
qed

lemma last_run_after_space:
  assumes "sp c" and "\<exists>x\<in>set s. \<not> sp x"
  shows "last_run sp (pre @ c # s) = last_run sp s"
proof -
  from assms(2) obtain x where x: "x \<in> set (rev s)" "\<not> sp x" by auto
  have "dropWhile sp (rev s @ c # rev pre) = dropWhile sp (rev s) @ c # rev pre"
    by (rule dropWhile_append1 [of x "rev s" sp, OF x])
  then show ?thesis
    using assms(1) by (simp add: last_run_def takeWhile_stop)
qed

lemma fields_from_None_Nil_iff:
  "(fields_from f None segs = []) = (\<forall>seg\<in>set segs. f (fst seg))"
proof -
  have "fields_from f (Some field) segs \<noteq> []" for field segs
    by (induction segs arbitrary: field) auto
  then show ?thesis
    by (induction segs) auto
qed

lemma fields_from_Some_not_Nil: "fields_from f (Some field) segs \<noteq> []"
  by (induction segs arbitrary: field) auto

text \<open>
  While a span is being read, \<open>start\<close> holds the bytes of the characters \<open>cur\<close> read
  since the last separator.
\<close>

lemma fields_from_last:
  assumes "\<forall>seg\<in>set cur. \<not> f (fst seg)"
    and "fields_from f (if cur = [] then None else Some (concat (map snd cur))) segs \<noteq> []"
  shows "last (fields_from f (if cur = [] then None else Some (concat (map snd cur))) segs)
       = concat (map snd (last_run (\<lambda>seg. f (fst seg)) (cur @ segs)))"
  using assms
proof (induction segs arbitrary: cur)
  case Nil
  then have "cur \<noteq> []" by (auto split: if_splits)
  then show ?case using last_run_word [of cur "\<lambda>seg. f (fst seg)"] Nil.prems(1) by simp
next
  case (Cons seg segs)
  let ?start = "\<lambda>cur. if cur = [] then None else Some (concat (map snd cur))"
  show ?case
  proof (cases "f (fst seg)")
    case False
    have n: "\<forall>x\<in>set (cur @ [seg]). \<not> f (fst x)" using Cons.prems(1) False by auto
    have e: "fields_from f (?start cur) (seg # segs) = fields_from f (?start (cur @ [seg])) segs"
      using False by simp
    with Cons.prems(2) have "fields_from f (?start (cur @ [seg])) segs \<noteq> []" by simp
    with n have "last (fields_from f (?start (cur @ [seg])) segs)
        = concat (map snd (last_run (\<lambda>seg. f (fst seg)) ((cur @ [seg]) @ segs)))"
      by (rule Cons.IH)
    with e show ?thesis by simp
  next
    case True
    show ?thesis
    proof (cases "\<forall>x\<in>set segs. f (fst x)")
      case allsp: True
      then have e: "fields_from f None segs = []" by (simp add: fields_from_None_Nil_iff)
      with Cons.prems(2) True have ne: "cur \<noteq> []" by (auto split: if_splits)
      have "\<forall>x\<in>set (seg # segs). f (fst x)" using allsp True by simp
      then have "last_run (\<lambda>seg. f (fst seg)) (cur @ seg # segs) = last_run (\<lambda>seg. f (fst seg)) cur"
        by (rule last_run_trailing)
      also have "\<dots> = cur" using Cons.prems(1) by (rule last_run_word)
      finally show ?thesis using True e ne by simp
    next
      case False
      then have ne: "fields_from f None segs \<noteq> []" by (simp add: fields_from_None_Nil_iff)
      have ih: "last (fields_from f None segs)
          = concat (map snd (last_run (\<lambda>seg. f (fst seg)) segs))"
        using Cons.IH [of "[]"] ne by simp
      have "last_run (\<lambda>seg. f (fst seg)) (cur @ seg # segs) = last_run (\<lambda>seg. f (fst seg)) segs"
        using True False by (intro last_run_after_space) auto
      then show ?thesis using True ih ne by (cases "cur = []") simp_all
    qed
  qed
qed

lemma Fields_last:
  "Fields msg = [] \<longleftrightarrow> (\<forall>seg\<in>set (range_string msg). unicode_IsSpace (fst seg))"
  "Fields msg \<noteq> [] \<Longrightarrow> last (Fields msg) = last_token msg"
  using fields_from_last [of "[]" unicode_IsSpace "range_string msg"]
  by (simp_all add: Fields_def FieldsFunc_def fields_from_None_Nil_iff last_token_def)

text \<open>
  Claim C8, as the code has it. \<open>parseViolation\<close> sets the operation to \<open>file-read\<close>
  when the message contains that marker, otherwise to \<open>file-write\<close> when it contains
  that one, otherwise to \<open>network\<close> when it contains that one, and otherwise leaves the
  operation as the event was decoded: no value \<open>other\<close> is ever written. The target
  becomes the last whitespace-delimited token of the message when the message has one
  (its characters are not all white space), and is left as decoded otherwise. White
  space is what \<open>unicode.IsSpace\<close> accepts, on the characters that the bytes of the
  message decode to. Nothing else of the event changes.
\<close>

theorem parseViolation_classification:
  "Operation (parseViolation v) =
     (if Contains (Message v) ''file-read'' then ''file-read''
      else if Contains (Message v) ''file-write'' then ''file-write''
      else if Contains (Message v) ''network'' then ''network''
      else Operation v)
   \<and> Target (parseViolation v) =
     (if list_all unicode_IsSpace (runes (Message v)) then Target v else last_token (Message v))
   \<and> Process (parseViolation v) = Process v
   \<and> Message (parseViolation v) = Message v
   \<and> Timestamp (parseViolation v) = Timestamp v"
  using Fields_last [of "Message v"]
  by (auto simp: parseViolation_def Let_def list_all_iff runes_def)

text \<open>
  A message whose last token follows a no-break space (U+00A0, two bytes in UTF-8): the
  target is the path after it.
\<close>

lemma parseViolation_no_break_space:
  "Target (parseViolation
      \<lparr>Process = ''cat'',
       Message = ''deny(1) file-read-data'' @ [CHR 0xC2, CHR 0xA0] @ ''/etc/passwd'',
       Timestamp = 0, Target = [], Operation = []\<rparr>) = ''/etc/passwd''"
  by (simp add: parseViolation_def Let_def Fields_def FieldsFunc_def range_string.simps DecodeRuneInString_def
      utf8_first_def unicode_IsSpace_def)

text \<open>
  The claim as stated fails: an event whose message has none of the three markers
  (here a denied \<open>process-exec\<close>) keeps the empty operation it was decoded with; it is
  not classified \<open>other\<close>.
\<close>

theorem parseViolation_other_counterexample:
  "Operation (parseViolation
      \<lparr>Process = ''ls'', Message = ''Sandbox: ls(123) deny(1) process-exec* /bin/ls'',
       Timestamp = 0, Target = '''', Operation = ''''\<rparr>) = ''''
   \<and> Operation (parseViolation
      \<lparr>Process = ''ls'', Message = ''Sandbox: ls(123) deny(1) process-exec* /bin/ls'',
       Timestamp = 0, Target = '''', Operation = ''''\<rparr>) \<noteq> ''other''"
  by (simp add: parseViolation_def Let_def HasPrefix_def)

section \<open>Properties of the domain filter\<close>

lemma any_matches_iff: "any_matches patterns d = (\<exists>p\<in>set patterns. Matches p d)"
  by (induction patterns) auto

lemma NewDomainFilter_fields:
  assumes "NewDomainFilter gc policy allowedDomains deniedDomains = Some f"
  shows "compile_all gc allowedDomains = Some (df_allowed f)"
    and "compile_all gc deniedDomains = Some (df_denied f)"
    and "df_defaultPolicy f = (if policy = ''deny'' then ''deny'' else ''allow'')"
  using assms by (auto simp: NewDomainFilter_def Let_def split: option.splits if_splits)

text \<open>
  Claim C1. \<open>IsAllowed\<close> decides in a fixed order. The domain is normalised (port
  stripped, trimmed, lower case) and compared with the patterns: when a denied pattern
  matches it the answer is false, whatever the allow list holds; otherwise, when an
  allowed pattern matches it the answer is true; otherwise the answer is the default
  policy. In particular a filter built with policy \<open>deny\<close> and an empty allow list
  allows no domain, and symmetrically a filter built with policy \<open>allow\<close> and an empty
  deny list allows every domain.
\<close>

theorem IsAllowed_precedence:
  "IsAllowed f d =
     (if (\<exists>p\<in>set (df_denied f). Matches p (normaliseDomain d)) then False
      else if (\<exists>p\<in>set (df_allowed f). Matches p (normaliseDomain d)) then True
      else df_defaultPolicy f = ''allow'')
   \<and> (NewDomainFilter gc ''deny'' [] deniedDomains = Some f \<longrightarrow> \<not> IsAllowed f d)
   \<and> (NewDomainFilter gc ''allow'' allowedDomains [] = Some f \<longrightarrow> IsAllowed f d)"
proof (intro conjI impI)
  show "IsAllowed f d =
     (if (\<exists>p\<in>set (df_denied f). Matches p (normaliseDomain d)) then False
      else if (\<exists>p\<in>set (df_allowed f). Matches p (normaliseDomain d)) then True
      else df_defaultPolicy f = ''allow'')"
    by (simp add: IsAllowed_def Let_def any_matches_iff)
next
  assume a: "NewDomainFilter gc ''deny'' [] deniedDomains = Some f"
  have "df_allowed f = []" "df_defaultPolicy f = ''deny''"
    using NewDomainFilter_fields [OF a] by simp_all
  then show "\<not> IsAllowed f d"
    by (simp add: IsAllowed_def Let_def)
next
  assume a: "NewDomainFilter gc ''allow'' allowedDomains [] = Some f"
  have "df_denied f = []" "df_defaultPolicy f = ''allow''"
    using NewDomainFilter_fields [OF a] by simp_all
  then show "IsAllowed f d"
    by (simp add: IsAllowed_def Let_def)
qed

lemma normaliseDomain_example: "normaliseDomain ''Example.COM:443'' = ''example.com''"
  by (simp add: normaliseDomain_def strip_port_def TrimSpace_def ToLower_def toLowerChar_def
      isSpace_def)

theorem IsAllowed_precedence_witness:
  "NewDomainFilter (\<lambda>p. None) ''deny'' [] [''bad.com'']
     = Some \<lparr>df_allowed = [],
             df_denied = [\<lparr>dp_pattern = ''bad.com'', dp_isGlob = False, dp_compiled = None\<rparr>],
             df_defaultPolicy = ''deny''\<rparr>
   \<and> \<not> IsAllowed \<lparr>df_allowed = [],
             df_denied = [\<lparr>dp_pattern = ''bad.com'', dp_isGlob = False, dp_compiled = None\<rparr>],
             df_defaultPolicy = ''deny''\<rparr> ''Example.COM:443''
   \<and> NewDomainFilter (\<lambda>p. None) ''allow'' [''example.com''] []
     = Some \<lparr>df_allowed = [\<lparr>dp_pattern = ''example.com'', dp_isGlob = False, dp_compiled = None\<rparr>],
             df_denied = [], df_defaultPolicy = ''allow''\<rparr>
   \<and> IsAllowed \<lparr>df_allowed = [\<lparr>dp_pattern = ''example.com'', dp_isGlob = False, dp_compiled = None\<rparr>],
             df_denied = [], df_defaultPolicy = ''allow''\<rparr> ''other.org''"
proof -
  have a: "NewDomainFilter (\<lambda>p. None) ''deny'' [] [''bad.com'']
     = Some \<lparr>df_allowed = [],
             df_denied = [\<lparr>dp_pattern = ''bad.com'', dp_isGlob = False, dp_compiled = None\<rparr>],
             df_defaultPolicy = ''deny''\<rparr>"
    by (simp add: NewDomainFilter_def compileDomainPattern_def TrimSpace_def ToLower_def
        toLowerChar_def isSpace_def HasPrefix_def)
  have b: "NewDomainFilter (\<lambda>p. None) ''allow'' [''example.com''] []
     = Some \<lparr>df_allowed = [\<lparr>dp_pattern = ''example.com'', dp_isGlob = False, dp_compiled = None\<rparr>],
             df_denied = [], df_defaultPolicy = ''allow''\<rparr>"
    by (simp add: NewDomainFilter_def compileDomainPattern_def TrimSpace_def ToLower_def
        toLowerChar_def isSpace_def HasPrefix_def)
  from a IsAllowed_precedence
    [of "\<lparr>df_allowed = [],
             df_denied = [\<lparr>dp_pattern = ''bad.com'', dp_isGlob = False, dp_compiled = None\<rparr>],
             df_defaultPolicy = ''deny''\<rparr>" "''Example.COM:443''" "\<lambda>p. None" "[''bad.com'']"]
  have c: "\<not> IsAllowed \<lparr>df_allowed = [],
             df_denied = [\<lparr>dp_pattern = ''bad.com'', dp_isGlob = False, dp_compiled = None\<rparr>],
             df_defaultPolicy = ''deny''\<rparr> ''Example.COM:443''"
    by blast
  from b IsAllowed_precedence
    [of "\<lparr>df_allowed = [\<lparr>dp_pattern = ''example.com'', dp_isGlob = False, dp_compiled = None\<rparr>],
             df_denied = [], df_defaultPolicy = ''allow''\<rparr>" "''other.org''" "\<lambda>p. None" _
        "[''example.com'']"]
  have d: "IsAllowed \<lparr>df_allowed = [\<lparr>dp_pattern = ''example.com'', dp_isGlob = False, dp_compiled = None\<rparr>],
             df_denied = [], df_defaultPolicy = ''allow''\<rparr> ''other.org''"
    by blast
  from a b c d show ?thesis by blast
qed

section \<open>Properties of the profile validator\<close>

lemma all_le_Suc_split: "(\<forall>k\<le>Suc n. P k) = (P 0 \<and> (\<forall>k\<le>n. P (Suc k)))"
proof
  assume a: "\<forall>k\<le>Suc n. P k"
  show "P 0 \<and> (\<forall>k\<le>n. P (Suc k))" using a by auto
next
  assume a: "P 0 \<and> (\<forall>k\<le>n. P (Suc k))"
  show "\<forall>k\<le>Suc n. P k"
  proof (intro allI impI)
    fix k assume "k \<le> Suc n"
    then show "P k" using a by (cases k) auto
  qed
qed

text \<open>The counter of \<open>hasBalancedParentheses\<close>, started at \<open>c\<close>: it accepts exactly when
  no prefix closes more than \<open>c\<close> plus what it opens, and the whole text closes
  \<open>c\<close> plus what it opens.\<close>

lemma balanced_from_counts:
  "0 \<le> c \<Longrightarrow>
   balanced_from c s =
     ((\<forall>k\<le>length s. int (count_list (take k s) (CHR '')'')) \<le> c + int (count_list (take k s) (CHR ''('')))
      \<and> c + int (count_list s (CHR ''('')) = int (count_list s (CHR '')'')))"
proof (induction s arbitrary: c)
  case Nil
  then show ?case by auto
next
  case (Cons ch s)
  show ?case
  proof (cases "ch = CHR ''(''")
    case True
    have "0 \<le> c + 1" using Cons.prems by simp
    from Cons.IH [OF this] True Cons.prems show ?thesis
      by (simp add: all_le_Suc_split add.assoc)
  next
    case False
    note notopen = this
    show ?thesis
    proof (cases "ch = CHR '')''")
      case True
      show ?thesis
      proof (cases "c = 0")
        case True
        have "\<not> (\<forall>k\<le>length (ch # s). int (count_list (take k (ch # s)) (CHR '')''))
                    \<le> c + int (count_list (take k (ch # s)) (CHR ''('')))"
        proof
          assume "\<forall>k\<le>length (ch # s). int (count_list (take k (ch # s)) (CHR '')''))
                    \<le> c + int (count_list (take k (ch # s)) (CHR ''(''))"
          then have "int (count_list (take 1 (ch # s)) (CHR '')''))
                    \<le> c + int (count_list (take 1 (ch # s)) (CHR ''(''))"
            by (metis One_nat_def Suc_le_mono length_Cons zero_le)
          then show False using True \<open>ch = CHR '')''\<close> by simp
        qed
        then show ?thesis using True \<open>ch = CHR '')''\<close> by simp
      next
        case False
        then have "0 \<le> c - 1" using Cons.prems by simp
        from Cons.IH [OF this] \<open>ch = CHR '')''\<close> False Cons.prems show ?thesis
          by (simp add: all_le_Suc_split) (auto simp: algebra_simps)
      qed
    next
      case False
      from Cons.IH [OF Cons.prems] notopen False Cons.prems show ?thesis
        by (simp add: all_le_Suc_split)
    qed
  qed
qed

lemma hasBalancedParentheses_counts:
  "hasBalancedParentheses s =
     ((\<forall>k\<le>length s. count_list (take k s) (CHR '')'') \<le> count_list (take k s) (CHR ''(''))
      \<and> count_list s (CHR ''('') = count_list s (CHR '')''))"
  unfolding hasBalancedParentheses_def
  using balanced_from_counts [of 0 s] by simp

text \<open>
  Claim C3. Let \<open>cat\<close> return the profile. A profile without the version declaration
  is rejected; one with it whose parentheses are unbalanced is rejected; one that
  passes both and has neither a deny nor an allow statement is rejected. Whenever one
  of the three static checks fails the validator returns one of these three errors
  and has run \<open>cat\<close> only: \<open>sandbox-exec\<close> is not invoked. (When all three pass it
  is.) The balance check is the simple counter: no prefix of the profile closes more
  parentheses than it opens, and the whole profile opens as many as it closes.
\<close>

theorem ValidateProfile_static_phase:
  assumes "cat_output w profilePath = Some profile"
  shows "(\<not> Contains profile ''(version 1)'' \<longrightarrow>
            fst (ValidateProfile w profilePath) = Some MissingVersion)
       \<and> (Contains profile ''(version 1)'' \<and> \<not> hasBalancedParentheses profile \<longrightarrow>
            fst (ValidateProfile w profilePath) = Some UnbalancedParentheses)
       \<and> (Contains profile ''(version 1)'' \<and> hasBalancedParentheses profile
            \<and> \<not> Contains profile ''(deny '' \<and> \<not> Contains profile ''(allow '' \<longrightarrow>
            fst (ValidateProfile w profilePath) = Some MissingStatements)
       \<and> (\<not> static_ok profile \<longrightarrow>
            fst (ValidateProfile w profilePath)
              \<in> {Some MissingVersion, Some UnbalancedParentheses, Some MissingStatements}
            \<and> snd (ValidateProfile w profilePath) = [Cat profilePath])
       \<and> (static_ok profile \<longrightarrow>
            snd (ValidateProfile w profilePath) = [Cat profilePath, SandboxExec profilePath])
       \<and> (hasBalancedParentheses profile =
            ((\<forall>k\<le>length profile.
                count_list (take k profile) (CHR '')'') \<le> count_list (take k profile) (CHR ''(''))
             \<and> count_list profile (CHR ''('') = count_list profile (CHR '')'')))"
  using assms hasBalancedParentheses_counts [of profile]
  by (auto simp: ValidateProfile_def static_ok_def split: option.splits)

theorem ValidateProfile_static_phase_witness:
  "ValidateProfile
      \<lparr>cat_output = [''a.sb'' \<mapsto> ''(deny default)\<newline>(allow file-read*)''],
       sandbox_exec_failure = (\<lambda>p. None)\<rparr> ''a.sb''
     = (Some MissingVersion, [Cat ''a.sb''])
   \<and> ValidateProfile
      \<lparr>cat_output = [''b.sb'' \<mapsto> ''(version 1)\<newline>(deny default\<newline>(allow file-read*)''],
       sandbox_exec_failure = (\<lambda>p. None)\<rparr> ''b.sb''
     = (Some UnbalancedParentheses, [Cat ''b.sb''])
   \<and> ValidateProfile
      \<lparr>cat_output = [''c.sb'' \<mapsto> ''(version 1)\<newline>''],
       sandbox_exec_failure = (\<lambda>p. None)\<rparr> ''c.sb''
     = (Some MissingStatements, [Cat ''c.sb''])
   \<and> snd (ValidateProfile
      \<lparr>cat_output = [''d.sb'' \<mapsto> ''(version 1)\<newline>(deny default)''],
       sandbox_exec_failure = (\<lambda>p. None)\<rparr> ''d.sb'')
     = [Cat ''d.sb'', SandboxExec ''d.sb'']"
proof -
  let ?wa = "\<lparr>cat_output = [''a.sb'' \<mapsto> ''(deny default)\<newline>(allow file-read*)''],
       sandbox_exec_failure = (\<lambda>p. None)\<rparr>"
  let ?wb = "\<lparr>cat_output = [''b.sb'' \<mapsto> ''(version 1)\<newline>(deny default\<newline>(allow file-read*)''],
       sandbox_exec_failure = (\<lambda>p. None)\<rparr>"
  let ?wc = "\<lparr>cat_output = [''c.sb'' \<mapsto> ''(version 1)\<newline>''],
       sandbox_exec_failure = (\<lambda>p. None)\<rparr>"
  let ?wd = "\<lparr>cat_output = [''d.sb'' \<mapsto> ''(version 1)\<newline>(deny default)''],
       sandbox_exec_failure = (\<lambda>p. None)\<rparr>"
  have ca: "cat_output ?wa ''a.sb'' = Some ''(deny default)\<newline>(allow file-read*)''" by simp
  have cb: "cat_output ?wb ''b.sb'' = Some ''(version 1)\<newline>(deny default\<newline>(allow file-read*)''"
    by simp
  have cc: "cat_output ?wc ''c.sb'' = Some ''(version 1)\<newline>''" by simp
  have cd: "cat_output ?wd ''d.sb'' = Some ''(version 1)\<newline>(deny default)''" by simp
  have na: "\<not> Contains ''(deny default)\<newline>(allow file-read*)'' ''(version 1)''"
    by (simp add: HasPrefix_def)
  have nb: "Contains ''(version 1)\<newline>(deny default\<newline>(allow file-read*)'' ''(version 1)''
            \<and> \<not> hasBalancedParentheses ''(version 1)\<newline>(deny default\<newline>(allow file-read*)''"
    by (simp add: HasPrefix_def hasBalancedParentheses_def)
  have nc: "Contains ''(version 1)\<newline>'' ''(version 1)''
            \<and> hasBalancedParentheses ''(version 1)\<newline>''
            \<and> \<not> Contains ''(version 1)\<newline>'' ''(deny ''
            \<and> \<not> Contains ''(version 1)\<newline>'' ''(allow ''"
    by (simp add: HasPrefix_def hasBalancedParentheses_def)
  have nd: "static_ok ''(version 1)\<newline>(deny default)''"
    by (simp add: static_ok_def HasPrefix_def hasBalancedParentheses_def)
  have sa: "\<not> static_ok ''(deny default)\<newline>(allow file-read*)''"
    using na by (simp add: static_ok_def)
  have sb: "\<not> static_ok ''(version 1)\<newline>(deny default\<newline>(allow file-read*)''"
    using nb by (simp add: static_ok_def)
  have sc: "\<not> static_ok ''(version 1)\<newline>''"
    using nc by (simp add: static_ok_def)
  from ValidateProfile_static_phase [OF ca] na sa
  have a: "ValidateProfile ?wa ''a.sb'' = (Some MissingVersion, [Cat ''a.sb''])"
    by (metis prod.collapse)
  from ValidateProfile_static_phase [OF cb] nb sb
  have b: "ValidateProfile ?wb ''b.sb'' = (Some UnbalancedParentheses, [Cat ''b.sb''])"
    by (metis prod.collapse)
  from ValidateProfile_static_phase [OF cc] nc sc
  have c: "ValidateProfile ?wc ''c.sb'' = (Some MissingStatements, [Cat ''c.sb''])"
    by (metis prod.collapse)
  from ValidateProfile_static_phase [OF cd] nd
  have d: "snd (ValidateProfile ?wd ''d.sb'') = [Cat ''d.sb'', SandboxExec ''d.sb'']"
    by blast
  from a b c d show ?thesis by blast
qed

section \<open>Properties of the profile generator\<close>

lemma write_rules_Inr:
  "write_rules env fuel verb paths = Some (Inr out) \<Longrightarrow>
   \<exists>lines. list_all2 (rule_for env fuel verb) paths lines \<and> out = concat lines"
proof (induction paths arbitrary: out)
  case Nil
  then show ?case by simp
next
  case (Cons path paths)
  from Cons.prems obtain rest where
    r: "write_rules env fuel verb paths = Some (Inr rest)"
    by (cases "write_rules env fuel verb paths")
       (auto split: if_splits option.splits sum.splits)
  from Cons.IH [OF r] obtain lines where
    l: "list_all2 (rule_for env fuel verb) paths lines" "rest = concat lines" by blast
  show ?case
  proof (cases "ContainsGlob path")
    case True
    with Cons.prems r obtain regex where
      g: "GlobToRegex env fuel path = Some (Inr regex)"
      and o: "out = ''('' @ verb @ '' (regex #'' @ [dquote] @ regex @ [dquote] @ ''))\<newline>'' @ rest"
      by (auto split: option.splits sum.splits)
    let ?line = "''('' @ verb @ '' (regex #'' @ [dquote] @ regex @ [dquote] @ ''))\<newline>''"
    have "rule_for env fuel verb path ?line"
      using True g by (simp add: rule_for_def)
    with l o have "list_all2 (rule_for env fuel verb) (path # paths) (?line # lines)
        \<and> out = concat (?line # lines)"
      by simp
    then show ?thesis by blast
  next
    case False
    with Cons.prems r have
      o: "out = ''('' @ verb @ '' (subpath '' @ [dquote] @ path @ [dquote] @ ''))\<newline>'' @ rest"
      by simp
    let ?line = "''('' @ verb @ '' (subpath '' @ [dquote] @ path @ [dquote] @ ''))\<newline>''"
    have "rule_for env fuel verb path ?line"
      using False by (simp add: rule_for_def)
    with l o have "list_all2 (rule_for env fuel verb) (path # paths) (?line # lines)
        \<and> out = concat (?line # lines)"
      by simp
    then show ?thesis by blast
  qed
qed

lemma write_section_Inr:
  assumes "write_section env fuel comment verb paths = Some (Inr sb)"
  shows "\<exists>lines. list_all2 (rule_for env fuel verb) paths lines \<and> sb = titled comment lines"
proof (cases "paths = []")
  case True
  with assms have "sb = []" by (simp add: write_section_def)
  with True show ?thesis by (simp add: titled_def)
next
  case False
  with assms obtain rules where
    r: "write_rules env fuel verb paths = Some (Inr rules)" and s: "sb = comment @ rules @ ''\<newline>''"
    by (auto simp: write_section_def split: option.splits sum.splits)
  from write_rules_Inr [OF r] obtain lines where
    l: "list_all2 (rule_for env fuel verb) paths lines" "rules = concat lines" by blast
  from l(1) False have "lines \<noteq> []" by auto
  with l s have "list_all2 (rule_for env fuel verb) paths lines \<and> sb = titled comment lines"
    by (simp add: titled_def)
  then show ?thesis by blast
qed

lemma section_bind:
  "(case r of None \<Rightarrow> None | Some (Inl e) \<Rightarrow> Some (Inl e) | Some (Inr sb) \<Rightarrow> k sb) = Some (Inr p)
   \<Longrightarrow> \<exists>sb. r = Some (Inr sb) \<and> k sb = Some (Inr p)"
  by (auto split: option.splits sum.splits)

lemma GenerateSeatbeltProfile_Inr:
  assumes "GenerateSeatbeltProfile env fuel httpProxyPort socksProxyPort enableProxy
             denyReadPaths allowWritePaths denyWritePaths allowUnlinkPaths
             allowFork allowSysctlRead allowMachLookup allowPosixShm = Some (Inr profile)"
  shows "\<exists>sb2 sb3 sb4 sb5.
      write_section env fuel ''; Deny specific read paths\<newline>'' ''deny file-read*'' denyReadPaths
        = Some (Inr sb2)
    \<and> write_section env fuel ''; Allow writes to specific paths\<newline>'' ''allow file-write*''
        allowWritePaths = Some (Inr sb3)
    \<and> write_section env fuel ''; Deny specific writes within allowed paths\<newline>'' ''deny file-write*''
        denyWritePaths = Some (Inr sb4)
    \<and> write_section env fuel ''; Allow unlink in specific paths\<newline>'' ''allow file-write-unlink''
        allowUnlinkPaths = Some (Inr sb5)
    \<and> profile =
        ''(version 1)\<newline>\<newline>''
        @ ''; Process operations\<newline>''
        @ ''(allow process-exec*)\<newline>''
        @ (if allowFork then ''(allow process-fork)\<newline>'' else [])
        @ (if allowSysctlRead then ''(allow sysctl-read)\<newline>'' else [])
        @ (if allowMachLookup then ''(allow mach-lookup)\<newline>'' else [])
        @ (if allowPosixShm then ''(allow ipc-posix-shm*)\<newline>'' else [])
        @ ''\<newline>''
        @ (if enableProxy then
             ''; Network - deny all except proxies\<newline>''
             @ ''(deny network*)\<newline>''
             @ proxy_rule httpProxyPort
             @ proxy_rule socksProxyPort
             @ ''\<newline>''
           else
             ''; Network - deny all\<newline>''
             @ ''(deny network*)\<newline>\<newline>'')
        @ ''; Filesystem reads - allow by default\<newline>''
        @ ''(allow file-read*)\<newline>\<newline>''
        @ sb2
        @ ''; Filesystem writes - deny by default\<newline>''
        @ ''(deny file-write*)\<newline>\<newline>''
        @ sb3 @ sb4
        @ ''; File unlink/deletion - deny by default\<newline>''
        @ ''(deny file-write-unlink)\<newline>\<newline>''
        @ sb5"
  using assms
  unfolding GenerateSeatbeltProfile_def Let_def proxy_rule_def append_assoc
  apply -
  apply (drule section_bind, erule exE, erule conjE)
  apply (drule section_bind, erule exE, erule conjE)
  apply (drule section_bind, erule exE, erule conjE)
  apply (drule section_bind, erule exE, erule conjE)
  apply (simp only: option.inject sum.inject)
  apply (intro exI conjI)
      apply (rule refl)+
  apply (erule sym)
  done

text \<open>
  Claim C2. When \<open>GenerateSeatbeltProfile\<close> succeeds, the profile is, in this order:
  the version declaration; the process grants (\<open>process-exec*\<close> always, each of fork,
  sysctl-read, mach-lookup and shared memory when its flag is set); the network
  section (deny all network and, only when the proxy is enabled, the two rules allowing
  the loopback host at the HTTP and the SOCKS proxy port); the reads (allow all, then
  one deny rule per read-deny path); the writes (deny all, then one allow rule per
  write-allow path, then one deny rule per write-deny path, so every write-deny rule
  stands after every write-allow rule); the deletions (deny all, then one allow rule
  per unlink-allow path). The rule of a path is a regex rule with the compiled pattern
  when the path has glob syntax and a subpath rule with the path itself otherwise.
\<close>

theorem GenerateSeatbeltProfile_sections:
  assumes "GenerateSeatbeltProfile env fuel httpProxyPort socksProxyPort enableProxy
             denyReadPaths allowWritePaths denyWritePaths allowUnlinkPaths
             allowFork allowSysctlRead allowMachLookup allowPosixShm = Some (Inr profile)"
  shows "\<exists>readDenies writeAllows writeDenies unlinkAllows.
      list_all2 (rule_for env fuel ''deny file-read*'') denyReadPaths readDenies
    \<and> list_all2 (rule_for env fuel ''allow file-write*'') allowWritePaths writeAllows
    \<and> list_all2 (rule_for env fuel ''deny file-write*'') denyWritePaths writeDenies
    \<and> list_all2 (rule_for env fuel ''allow file-write-unlink'') allowUnlinkPaths unlinkAllows
    \<and> profile =
        ''(version 1)\<newline>\<newline>''
        @ ''; Process operations\<newline>''
        @ ''(allow process-exec*)\<newline>''
        @ (if allowFork then ''(allow process-fork)\<newline>'' else [])
        @ (if allowSysctlRead then ''(allow sysctl-read)\<newline>'' else [])
        @ (if allowMachLookup then ''(allow mach-lookup)\<newline>'' else [])
        @ (if allowPosixShm then ''(allow ipc-posix-shm*)\<newline>'' else [])
        @ ''\<newline>''
        @ (if enableProxy then
             ''; Network - deny all except proxies\<newline>''
             @ ''(deny network*)\<newline>''
             @ proxy_rule httpProxyPort
             @ proxy_rule socksProxyPort
             @ ''\<newline>''
           else
             ''; Network - deny all\<newline>''
             @ ''(deny network*)\<newline>\<newline>'')
        @ ''; Filesystem reads - allow by default\<newline>''
        @ ''(allow file-read*)\<newline>\<newline>''
        @ titled ''; Deny specific read paths\<newline>'' readDenies
        @ ''; Filesystem writes - deny by default\<newline>''
        @ ''(deny file-write*)\<newline>\<newline>''
        @ titled ''; Allow writes to specific paths\<newline>'' writeAllows
        @ titled ''; Deny specific writes within allowed paths\<newline>'' writeDenies
        @ ''; File unlink/deletion - deny by default\<newline>''
        @ ''(deny file-write-unlink)\<newline>\<newline>''
        @ titled ''; Allow unlink in specific paths\<newline>'' unlinkAllows"
proof -
  from GenerateSeatbeltProfile_Inr [OF assms] obtain sb2 sb3 sb4 sb5 where
    s2: "write_section env fuel ''; Deny specific read paths\<newline>'' ''deny file-read*'' denyReadPaths
        = Some (Inr sb2)"
    and s3: "write_section env fuel ''; Allow writes to specific paths\<newline>'' ''allow file-write*''
        allowWritePaths = Some (Inr sb3)"
    and s4: "write_section env fuel ''; Deny specific writes within allowed paths\<newline>''
        ''deny file-write*'' denyWritePaths = Some (Inr sb4)"
    and s5: "write_section env fuel ''; Allow unlink in specific paths\<newline>''
        ''allow file-write-unlink'' allowUnlinkPaths = Some (Inr sb5)"
    and p: "profile =
        ''(version 1)\<newline>\<newline>''
        @ ''; Process operations\<newline>''
        @ ''(allow process-exec*)\<newline>''
        @ (if allowFork then ''(allow process-fork)\<newline>'' else [])
        @ (if allowSysctlRead then ''(allow sysctl-read)\<newline>'' else [])
        @ (if allowMachLookup then ''(allow mach-lookup)\<newline>'' else [])
        @ (if allowPosixShm then ''(allow ipc-posix-shm*)\<newline>'' else [])
        @ ''\<newline>''
        @ (if enableProxy then
             ''; Network - deny all except proxies\<newline>''
             @ ''(deny network*)\<newline>''
             @ proxy_rule httpProxyPort
             @ proxy_rule socksProxyPort
             @ ''\<newline>''
           else
             ''; Network - deny all\<newline>''
             @ ''(deny network*)\<newline>\<newline>'')
        @ ''; Filesystem reads - allow by default\<newline>''
        @ ''(allow file-read*)\<newline>\<newline>''
        @ sb2
        @ ''; Filesystem writes - deny by default\<newline>''
        @ ''(deny file-write*)\<newline>\<newline>''
        @ sb3 @ sb4
        @ ''; File unlink/deletion - deny by default\<newline>''
        @ ''(deny file-write-unlink)\<newline>\<newline>''
        @ sb5"
    by (elim exE conjE)
  from write_section_Inr [OF s2] obtain readDenies where
    l2: "list_all2 (rule_for env fuel ''deny file-read*'') denyReadPaths readDenies"
    and e2: "sb2 = titled ''; Deny specific read paths\<newline>'' readDenies" by blast
  from write_section_Inr [OF s3] obtain writeAllows where
    l3: "list_all2 (rule_for env fuel ''allow file-write*'') allowWritePaths writeAllows"
    and e3: "sb3 = titled ''; Allow writes to specific paths\<newline>'' writeAllows" by blast
  from write_section_Inr [OF s4] obtain writeDenies where
    l4: "list_all2 (rule_for env fuel ''deny file-write*'') denyWritePaths writeDenies"
    and e4: "sb4 = titled ''; Deny specific writes within allowed paths\<newline>'' writeDenies"
    by blast
  from write_section_Inr [OF s5] obtain unlinkAllows where
    l5: "list_all2 (rule_for env fuel ''allow file-write-unlink'') allowUnlinkPaths unlinkAllows"
    and e5: "sb5 = titled ''; Allow unlink in specific paths\<newline>'' unlinkAllows" by blast
  show ?thesis
    apply (rule exI [of _ readDenies], rule exI [of _ writeAllows],
           rule exI [of _ writeDenies], rule exI [of _ unlinkAllows])
    apply (intro conjI)
        apply (rule l2)
       apply (rule l3)
      apply (rule l4)
     apply (rule l5)
    apply (unfold p e2 e3 e4 e5)
    apply (rule refl)
    done
qed

theorem GenerateSeatbeltProfile_sections_witness:
  "GenerateSeatbeltProfile
     \<lparr>os_UserHomeDir = None, filepath_Join = (\<lambda>a b. a @ b), filepath_Abs = (\<lambda>p. Some p),
      filepath_EvalSymlinks = (\<lambda>p. NotExist)\<rparr>
     (Suc 0) 8080 1080 False [''/srv/*.key'', ''/etc/ssl''] [] [] [] False False False False
   = Some (Inr
       (''(version 1)\<newline>\<newline>''
        @ ''; Process operations\<newline>''
        @ ''(allow process-exec*)\<newline>''
        @ ''\<newline>''
        @ ''; Network - deny all\<newline>''
        @ ''(deny network*)\<newline>\<newline>''
        @ ''; Filesystem reads - allow by default\<newline>''
        @ ''(allow file-read*)\<newline>\<newline>''
        @ ''; Deny specific read paths\<newline>''
        @ ''(deny file-read* (regex #'' @ [dquote] @ ''^/srv/[^/]*'' @ [backslash] @ ''.key$''
            @ [dquote] @ ''))\<newline>''
        @ ''(deny file-read* (subpath '' @ [dquote] @ ''/etc/ssl'' @ [dquote] @ ''))\<newline>''
        @ ''\<newline>''
        @ ''; Filesystem writes - deny by default\<newline>''
        @ ''(deny file-write*)\<newline>\<newline>''
        @ ''; File unlink/deletion - deny by default\<newline>''
        @ ''(deny file-write-unlink)\<newline>\<newline>''))
   \<and> (\<exists>readDenies.
        list_all2
          (rule_for
            \<lparr>os_UserHomeDir = None, filepath_Join = (\<lambda>a b. a @ b), filepath_Abs = (\<lambda>p. Some p),
             filepath_EvalSymlinks = (\<lambda>p. NotExist)\<rparr>
            (Suc 0) ''deny file-read*'')
          [''/srv/*.key'', ''/etc/ssl''] readDenies)"
proof -
  let ?env = "\<lparr>os_UserHomeDir = None, filepath_Join = (\<lambda>a b. a @ b), filepath_Abs = (\<lambda>p. Some p),
      filepath_EvalSymlinks = (\<lambda>p. NotExist)\<rparr>"
  have g: "GenerateSeatbeltProfile ?env
     (Suc 0) 8080 1080 False [''/srv/*.key'', ''/etc/ssl''] [] [] [] False False False False
   = Some (Inr
       (''(version 1)\<newline>\<newline>''
        @ ''; Process operations\<newline>''
        @ ''(allow process-exec*)\<newline>''
        @ ''\<newline>''
        @ ''; Network - deny all\<newline>''
        @ ''(deny network*)\<newline>\<newline>''
        @ ''; Filesystem reads - allow by default\<newline>''
        @ ''(allow file-read*)\<newline>\<newline>''
        @ ''; Deny specific read paths\<newline>''
        @ ''(deny file-read* (regex #'' @ [dquote] @ ''^/srv/[^/]*'' @ [backslash] @ ''.key$''
            @ [dquote] @ ''))\<newline>''
        @ ''(deny file-read* (subpath '' @ [dquote] @ ''/etc/ssl'' @ [dquote] @ ''))\<newline>''
        @ ''\<newline>''
        @ ''; Filesystem writes - deny by default\<newline>''
        @ ''(deny file-write*)\<newline>\<newline>''
        @ ''; File unlink/deletion - deny by default\<newline>''
        @ ''(deny file-write-unlink)\<newline>\<newline>''))"
    by (simp add: GenerateSeatbeltProfile_def write_section_def ContainsGlob_def ContainsAny_def
        convert.simps WriteString_def)
  from GenerateSeatbeltProfile_sections [OF g]
  have "\<exists>readDenies.
        list_all2 (rule_for ?env (Suc 0) ''deny file-read*'') [''/srv/*.key'', ''/etc/ssl''] readDenies"
    by (elim exE conjE) (rule exI)
  with g show ?thesis by (intro conjI)
qed

text \<open>
  Claim C4 does not hold of the code. A path with an unmatched parenthesis is written
  into the profile as it is (in a subpath rule), and a glob with one keeps it behind a
  backslash (in a regex rule); \<open>hasBalancedParentheses\<close> counts every parenthesis, in
  quoted paths too. So for the read-deny list \<open>/tmp/a(b\<close>, and for the glob
  \<open>/tmp/*(x\<close>, \<open>GenerateSeatbeltProfile\<close> succeeds with a profile that the counter finds
  unbalanced, and \<open>ValidateProfile\<close> rejects that profile in its static phase.
\<close>

theorem GenerateSeatbeltProfile_unbalanced_profile:
  "GenerateSeatbeltProfile env (Suc fuel) 0 0 False [''/tmp/a(b''] [] [] [] False False False False
   = Some (Inr
       (''(version 1)\<newline>\<newline>''
        @ ''; Process operations\<newline>''
        @ ''(allow process-exec*)\<newline>''
        @ ''\<newline>''
        @ ''; Network - deny all\<newline>''
        @ ''(deny network*)\<newline>\<newline>''
        @ ''; Filesystem reads - allow by default\<newline>''
        @ ''(allow file-read*)\<newline>\<newline>''
        @ ''; Deny specific read paths\<newline>''
        @ ''(deny file-read* (subpath '' @ [dquote] @ ''/tmp/a(b'' @ [dquote] @ ''))\<newline>''
        @ ''\<newline>''
        @ ''; Filesystem writes - deny by default\<newline>''
        @ ''(deny file-write*)\<newline>\<newline>''
        @ ''; File unlink/deletion - deny by default\<newline>''
        @ ''(deny file-write-unlink)\<newline>\<newline>''))
   \<and> \<not> hasBalancedParentheses
       (''(version 1)\<newline>\<newline>''
        @ ''; Process operations\<newline>''
        @ ''(allow process-exec*)\<newline>''
        @ ''\<newline>''
        @ ''; Network - deny all\<newline>''
        @ ''(deny network*)\<newline>\<newline>''
        @ ''; Filesystem reads - allow by default\<newline>''
        @ ''(allow file-read*)\<newline>\<newline>''
        @ ''; Deny specific read paths\<newline>''
        @ ''(deny file-read* (subpath '' @ [dquote] @ ''/tmp/a(b'' @ [dquote] @ ''))\<newline>''
        @ ''\<newline>''
        @ ''; Filesystem writes - deny by default\<newline>''
        @ ''(deny file-write*)\<newline>\<newline>''
        @ ''; File unlink/deletion - deny by default\<newline>''
        @ ''(deny file-write-unlink)\<newline>\<newline>'')
   \<and> fst (ValidateProfile
        \<lparr>cat_output = (\<lambda>path. Some
           (''(version 1)\<newline>\<newline>''
            @ ''; Process operations\<newline>''
            @ ''(allow process-exec*)\<newline>''
            @ ''\<newline>''
            @ ''; Network - deny all\<newline>''
            @ ''(deny network*)\<newline>\<newline>''
            @ ''; Filesystem reads - allow by default\<newline>''
            @ ''(allow file-read*)\<newline>\<newline>''
            @ ''; Deny specific read paths\<newline>''
            @ ''(deny file-read* (subpath '' @ [dquote] @ ''/tmp/a(b'' @ [dquote] @ ''))\<newline>''
            @ ''\<newline>''
            @ ''; Filesystem writes - deny by default\<newline>''
            @ ''(deny file-write*)\<newline>\<newline>''
            @ ''; File unlink/deletion - deny by default\<newline>''
            @ ''(deny file-write-unlink)\<newline>\<newline>'')),
         sandbox_exec_failure = (\<lambda>path. None)\<rparr> ''profile.sb'')
     = Some UnbalancedParentheses
   \<and> GenerateSeatbeltProfile env (Suc fuel) 0 0 False [''/tmp/*(x''] [] [] [] False False False False
   = Some (Inr
       (''(version 1)\<newline>\<newline>''
        @ ''; Process operations\<newline>''
        @ ''(allow process-exec*)\<newline>''
        @ ''\<newline>''
        @ ''; Network - deny all\<newline>''
        @ ''(deny network*)\<newline>\<newline>''
        @ ''; Filesystem reads - allow by default\<newline>''
        @ ''(allow file-read*)\<newline>\<newline>''
        @ ''; Deny specific read paths\<newline>''
        @ ''(deny file-read* (regex #'' @ [dquote] @ ''^/tmp/[^/]*'' @ [backslash] @ ''(x$''
            @ [dquote] @ ''))\<newline>''
        @ ''\<newline>''
        @ ''; Filesystem writes - deny by default\<newline>''
        @ ''(deny file-write*)\<newline>\<newline>''
        @ ''; File unlink/deletion - deny by default\<newline>''
        @ ''(deny file-write-unlink)\<newline>\<newline>''))
   \<and> \<not> hasBalancedParentheses
       (''(version 1)\<newline>\<newline>''
        @ ''; Process operations\<newline>''
        @ ''(allow process-exec*)\<newline>''
        @ ''\<newline>''
        @ ''; Network - deny all\<newline>''
        @ ''(deny network*)\<newline>\<newline>''
        @ ''; Filesystem reads - allow by default\<newline>''
        @ ''(allow file-read*)\<newline>\<newline>''
        @ ''; Deny specific read paths\<newline>''
        @ ''(deny file-read* (regex #'' @ [dquote] @ ''^/tmp/[^/]*'' @ [backslash] @ ''(x$''
            @ [dquote] @ ''))\<newline>''
        @ ''\<newline>''
        @ ''; Filesystem writes - deny by default\<newline>''
        @ ''(deny file-write*)\<newline>\<newline>''
        @ ''; File unlink/deletion - deny by default\<newline>''
        @ ''(deny file-write-unlink)\<newline>\<newline>'')"
  by (simp add: GenerateSeatbeltProfile_def write_section_def ContainsGlob_def ContainsAny_def
      convert.simps WriteString_def hasBalancedParentheses_def ValidateProfile_def HasPrefix_def)

section \<open>Properties of the orchestrator\<close>

lemma NewManager_needs:
  assumes "NewManager w cfg = Inr m" and "needsNetworkProxy cfg"
  shows "\<exists>http socks. httpProxy m = Some http \<and> socksProxy m = Some socks
             \<and> HTTPProxyPort (Network (config m)) = proxy_port http
             \<and> SOCKSProxyPort (Network (config m)) = proxy_port socks
             \<and> commandID m = generateCommandID w"
proof -
  from assms obtain domainFilter where
    f: "NewDomainFilter (glob_Compile w) (DefaultPolicy (Network cfg))
          (AllowedDomains (Network cfg)) (DeniedDomains (Network cfg)) = Some domainFilter"
    by (cases "NewDomainFilter (glob_Compile w) (DefaultPolicy (Network cfg))
          (AllowedDomains (Network cfg)) (DeniedDomains (Network cfg))")
       (simp_all add: NewManager_def)
  from assms f obtain http where
    h: "NewHTTPProxy w domainFilter (HTTPProxyPort (Network cfg)) = Some http"
    by (cases "NewHTTPProxy w domainFilter (HTTPProxyPort (Network cfg))")
       (simp_all add: NewManager_def)
  from assms f h obtain socks where
    s: "NewSOCKSProxy w domainFilter (SOCKSProxyPort (Network cfg)) = Some socks"
    by (cases "NewSOCKSProxy w domainFilter (SOCKSProxyPort (Network cfg))")
       (simp_all add: NewManager_def Let_def)
  from assms f h s have
    "m = \<lparr>config = cfg\<lparr>Network := (Network cfg)\<lparr>HTTPProxyPort := proxy_port http,
                                                 SOCKSProxyPort := proxy_port socks\<rparr>\<rparr>,
          httpProxy = Some http, socksProxy = Some socks, commandID = generateCommandID w\<rparr>"
    by (simp add: NewManager_def Let_def)
  then show ?thesis by simp
qed

lemma NewManager_blocked:
  assumes "NewManager w cfg = Inr m" and "\<not> needsNetworkProxy cfg"
  shows "httpProxy m = None \<and> socksProxy m = None \<and> config m = cfg
         \<and> commandID m = generateCommandID w"
  using assms by (auto simp: NewManager_def)

lemma NewManager_proxyEnabled:
  assumes "NewManager w cfg = Inr m"
  shows "proxyEnabled m = needsNetworkProxy cfg"
proof (cases "needsNetworkProxy cfg")
  case True
  from NewManager_needs [OF assms True] True show ?thesis
    by (auto simp: proxyEnabled_def)
next
  case False
  from NewManager_blocked [OF assms False] False show ?thesis
    by (simp add: proxyEnabled_def)
qed

lemma command_id_no_proxy_var:
  "sets_proxy_var (xs @ [''SRT_COMMAND_ID='' @ x]) = sets_proxy_var xs"
  by (simp add: sets_proxy_var_def sets_var_def HasPrefix_def)

lemma proxy_vars_set:
  "sets_proxy_var (xs @ [i, ''HTTP_PROXY=http://localhost:'' @ a, b, c])"
  by (simp add: sets_proxy_var_def sets_var_def HasPrefix_def)

text \<open>
  Claim C9, as the code has it. For a manager that \<open>NewManager\<close> returned: proxies are
  needed exactly when the allowed-domains list is non-empty or the default policy is
  \<open>allow\<close>, and both proxies exist exactly then. When they are needed, \<open>Execute\<close> gives
  the child the parent's environment followed by the command identifier and the three
  proxy variables, in this order. When the network is fully blocked no proxy was
  created and \<open>Execute\<close> adds the command identifier only: the child's environment is
  the parent's plus that one entry, so a proxy variable is in it exactly when the
  parent's environment had one. Hence, for a parent environment that sets none of the
  three variables, the child's environment sets one exactly when enforcement is active.
\<close>

theorem Execute_Env_proxy_variables:
  assumes "NewManager w cfg = Inr m"
  shows "needsNetworkProxy cfg
           = (AllowedDomains (Network cfg) \<noteq> [] \<or> DefaultPolicy (Network cfg) = ''allow'')
       \<and> proxyEnabled m = needsNetworkProxy cfg
       \<and> (needsNetworkProxy cfg \<longrightarrow>
            Execute_Env m os_Environ =
              os_Environ @
              [''SRT_COMMAND_ID='' @ commandID m,
               ''HTTP_PROXY=http://localhost:'' @ itoa (HTTPProxyPort (Network (config m))),
               ''HTTPS_PROXY=http://localhost:'' @ itoa (HTTPProxyPort (Network (config m))),
               ''ALL_PROXY=socks5://localhost:'' @ itoa (SOCKSProxyPort (Network (config m)))])
       \<and> (\<not> needsNetworkProxy cfg \<longrightarrow>
            httpProxy m = None \<and> socksProxy m = None
            \<and> Execute_Env m os_Environ = os_Environ @ [''SRT_COMMAND_ID='' @ commandID m]
            \<and> sets_proxy_var (Execute_Env m os_Environ) = sets_proxy_var os_Environ)
       \<and> (\<not> sets_proxy_var os_Environ \<longrightarrow>
            sets_proxy_var (Execute_Env m os_Environ) = needsNetworkProxy cfg)"
proof -
  note pe = NewManager_proxyEnabled [OF assms]
  have a: "needsNetworkProxy cfg
           = (AllowedDomains (Network cfg) \<noteq> [] \<or> DefaultPolicy (Network cfg) = ''allow'')"
    by (simp add: needsNetworkProxy_def)
  have b: "needsNetworkProxy cfg \<longrightarrow>
            Execute_Env m os_Environ =
              os_Environ @
              [''SRT_COMMAND_ID='' @ commandID m,
               ''HTTP_PROXY=http://localhost:'' @ itoa (HTTPProxyPort (Network (config m))),
               ''HTTPS_PROXY=http://localhost:'' @ itoa (HTTPProxyPort (Network (config m))),
               ''ALL_PROXY=socks5://localhost:'' @ itoa (SOCKSProxyPort (Network (config m)))]"
    using pe by (simp add: Execute_Env_def Let_def)
  have c0: "\<not> needsNetworkProxy cfg \<longrightarrow>
            httpProxy m = None \<and> socksProxy m = None
            \<and> Execute_Env m os_Environ = os_Environ @ [''SRT_COMMAND_ID='' @ commandID m]"
    using pe NewManager_blocked [OF assms] by (simp add: Execute_Env_def Let_def)
  have c: "\<not> needsNetworkProxy cfg \<longrightarrow>
            httpProxy m = None \<and> socksProxy m = None
            \<and> Execute_Env m os_Environ = os_Environ @ [''SRT_COMMAND_ID='' @ commandID m]
            \<and> sets_proxy_var (Execute_Env m os_Environ) = sets_proxy_var os_Environ"
  proof
    assume n: "\<not> needsNetworkProxy cfg"
    with c0 have e: "Execute_Env m os_Environ = os_Environ @ [''SRT_COMMAND_ID='' @ commandID m]"
      by blast
    have "sets_proxy_var (Execute_Env m os_Environ) = sets_proxy_var os_Environ"
      unfolding e by (rule command_id_no_proxy_var)
    with c0 n show "httpProxy m = None \<and> socksProxy m = None
            \<and> Execute_Env m os_Environ = os_Environ @ [''SRT_COMMAND_ID='' @ commandID m]
            \<and> sets_proxy_var (Execute_Env m os_Environ) = sets_proxy_var os_Environ"
      by blast
  qed
  have d: "\<not> sets_proxy_var os_Environ \<longrightarrow>
            sets_proxy_var (Execute_Env m os_Environ) = needsNetworkProxy cfg"
  proof (cases "needsNetworkProxy cfg")
    case True
    with b have e: "Execute_Env m os_Environ =
        os_Environ @
          [''SRT_COMMAND_ID='' @ commandID m,
           ''HTTP_PROXY=http://localhost:'' @ itoa (HTTPProxyPort (Network (config m))),
           ''HTTPS_PROXY=http://localhost:'' @ itoa (HTTPProxyPort (Network (config m))),
           ''ALL_PROXY=socks5://localhost:'' @ itoa (SOCKSProxyPort (Network (config m)))]"
      by blast
    have "sets_proxy_var (Execute_Env m os_Environ)"
      unfolding e by (rule proxy_vars_set)
    with True show ?thesis by simp
  next
    case False
    with c show ?thesis by blast
  qed
  from a pe b c d show ?thesis by blast
qed

lemma itoa_8080: "itoa 8080 = ''8080''"
  by (simp add: itoa_def digits.simps)

lemma itoa_1080: "itoa 1080 = ''1080''"
  by (simp add: itoa_def digits.simps)

theorem Execute_Env_proxy_variables_witness:
  "NewManager
     \<lparr>glob_Compile = (\<lambda>p. None), listen_http = (\<lambda>p. Some p), socks5_New_ok = True,
      listen_socks = (\<lambda>p. Some p), generateCommandID = ''c3J0LTQy''\<rparr>
     \<lparr>Network = \<lparr>DefaultPolicy = ''deny'', AllowedDomains = [''github.com''], DeniedDomains = [],
        AllowUnixSockets = [], AllowLocalBinding = False, HTTPProxyPort = 8080,
        SOCKSProxyPort = 1080\<rparr>\<rparr>
   = Inr \<lparr>config = \<lparr>Network = \<lparr>DefaultPolicy = ''deny'', AllowedDomains = [''github.com''],
                  DeniedDomains = [], AllowUnixSockets = [], AllowLocalBinding = False,
                  HTTPProxyPort = 8080, SOCKSProxyPort = 1080\<rparr>\<rparr>,
          httpProxy = Some \<lparr>proxy_port = 8080, proxy_filter =
            \<lparr>df_allowed = [\<lparr>dp_pattern = ''github.com'', dp_isGlob = False, dp_compiled = None\<rparr>],
             df_denied = [], df_defaultPolicy = ''deny''\<rparr>\<rparr>,
          socksProxy = Some \<lparr>proxy_port = 1080, proxy_filter =
            \<lparr>df_allowed = [\<lparr>dp_pattern = ''github.com'', dp_isGlob = False, dp_compiled = None\<rparr>],
             df_denied = [], df_defaultPolicy = ''deny''\<rparr>\<rparr>,
          commandID = ''c3J0LTQy''\<rparr>
   \<and> Execute_Env
       \<lparr>config = \<lparr>Network = \<lparr>DefaultPolicy = ''deny'', AllowedDomains = [''github.com''],
                  DeniedDomains = [], AllowUnixSockets = [], AllowLocalBinding = False,
                  HTTPProxyPort = 8080, SOCKSProxyPort = 1080\<rparr>\<rparr>,
          httpProxy = Some \<lparr>proxy_port = 8080, proxy_filter =
            \<lparr>df_allowed = [\<lparr>dp_pattern = ''github.com'', dp_isGlob = False, dp_compiled = None\<rparr>],
             df_denied = [], df_defaultPolicy = ''deny''\<rparr>\<rparr>,
          socksProxy = Some \<lparr>proxy_port = 1080, proxy_filter =
            \<lparr>df_allowed = [\<lparr>dp_pattern = ''github.com'', dp_isGlob = False, dp_compiled = None\<rparr>],
             df_denied = [], df_defaultPolicy = ''deny''\<rparr>\<rparr>,
          commandID = ''c3J0LTQy''\<rparr>
       [''PATH=/usr/bin'']
     = [''PATH=/usr/bin'', ''SRT_COMMAND_ID=c3J0LTQy'', ''HTTP_PROXY=http://localhost:8080'',
        ''HTTPS_PROXY=http://localhost:8080'', ''ALL_PROXY=socks5://localhost:1080'']
   \<and> NewManager
     \<lparr>glob_Compile = (\<lambda>p. None), listen_http = (\<lambda>p. Some p), socks5_New_ok = True,
      listen_socks = (\<lambda>p. Some p), generateCommandID = ''c3J0LTQy''\<rparr>
     \<lparr>Network = \<lparr>DefaultPolicy = ''deny'', AllowedDomains = [], DeniedDomains = [],
        AllowUnixSockets = [], AllowLocalBinding = False, HTTPProxyPort = 0,
        SOCKSProxyPort = 0\<rparr>\<rparr>
   = Inr \<lparr>config = \<lparr>Network = \<lparr>DefaultPolicy = ''deny'', AllowedDomains = [],
                  DeniedDomains = [], AllowUnixSockets = [], AllowLocalBinding = False,
                  HTTPProxyPort = 0, SOCKSProxyPort = 0\<rparr>\<rparr>,
          httpProxy = None, socksProxy = None, commandID = ''c3J0LTQy''\<rparr>
   \<and> Execute_Env
       \<lparr>config = \<lparr>Network = \<lparr>DefaultPolicy = ''deny'', AllowedDomains = [],
                  DeniedDomains = [], AllowUnixSockets = [], AllowLocalBinding = False,
                  HTTPProxyPort = 0, SOCKSProxyPort = 0\<rparr>\<rparr>,
          httpProxy = None, socksProxy = None, commandID = ''c3J0LTQy''\<rparr>
       [''PATH=/usr/bin'']
     = [''PATH=/usr/bin'', ''SRT_COMMAND_ID=c3J0LTQy'']"
proof -
  let ?w = "\<lparr>glob_Compile = (\<lambda>p. None), listen_http = (\<lambda>p. Some p), socks5_New_ok = True,
      listen_socks = (\<lambda>p. Some p), generateCommandID = ''c3J0LTQy''\<rparr>"
  let ?cfg1 = "\<lparr>Network = \<lparr>DefaultPolicy = ''deny'', AllowedDomains = [''github.com''],
        DeniedDomains = [], AllowUnixSockets = [], AllowLocalBinding = False, HTTPProxyPort = 8080,
        SOCKSProxyPort = 1080\<rparr>\<rparr>"
  let ?f = "\<lparr>df_allowed = [\<lparr>dp_pattern = ''github.com'', dp_isGlob = False, dp_compiled = None\<rparr>],
             df_denied = [], df_defaultPolicy = ''deny''\<rparr>"
  let ?m1 = "\<lparr>config = ?cfg1,
          httpProxy = Some \<lparr>proxy_port = 8080, proxy_filter = ?f\<rparr>,
          socksProxy = Some \<lparr>proxy_port = 1080, proxy_filter = ?f\<rparr>,
          commandID = ''c3J0LTQy''\<rparr>"
  let ?cfg2 = "\<lparr>Network = \<lparr>DefaultPolicy = ''deny'', AllowedDomains = [], DeniedDomains = [],
        AllowUnixSockets = [], AllowLocalBinding = False, HTTPProxyPort = 0,
        SOCKSProxyPort = 0\<rparr>\<rparr>"
  let ?m2 = "\<lparr>config = ?cfg2, httpProxy = None, socksProxy = None, commandID = ''c3J0LTQy''\<rparr>"
  have n1: "needsNetworkProxy ?cfg1" by (simp add: needsNetworkProxy_def)
  have n2: "\<not> needsNetworkProxy ?cfg2" by (simp add: needsNetworkProxy_def)
  have f: "NewDomainFilter (\<lambda>p. None) ''deny'' [''github.com''] [] = Some ?f"
    by (simp add: NewDomainFilter_def compileDomainPattern_def TrimSpace_def ToLower_def
        toLowerChar_def isSpace_def HasPrefix_def)
  have m1: "NewManager ?w ?cfg1 = Inr ?m1"
    using n1 f by (simp add: NewManager_def NewHTTPProxy_def NewSOCKSProxy_def)
  have m2: "NewManager ?w ?cfg2 = Inr ?m2"
    using n2 by (simp add: NewManager_def)
  from Execute_Env_proxy_variables [OF m1, of "[''PATH=/usr/bin'']", THEN conjunct2,
      THEN conjunct2, THEN conjunct1] n1
  have e1: "Execute_Env ?m1 [''PATH=/usr/bin''] =
      [''PATH=/usr/bin''] @
      [''SRT_COMMAND_ID='' @ commandID ?m1,
       ''HTTP_PROXY=http://localhost:'' @ itoa (HTTPProxyPort (Network (config ?m1))),
       ''HTTPS_PROXY=http://localhost:'' @ itoa (HTTPProxyPort (Network (config ?m1))),
       ''ALL_PROXY=socks5://localhost:'' @ itoa (SOCKSProxyPort (Network (config ?m1)))]"
    by (rule mp)
  have e1': "Execute_Env ?m1 [''PATH=/usr/bin''] =
      [''PATH=/usr/bin'', ''SRT_COMMAND_ID=c3J0LTQy'', ''HTTP_PROXY=http://localhost:8080'',
        ''HTTPS_PROXY=http://localhost:8080'', ''ALL_PROXY=socks5://localhost:1080'']"
    unfolding e1 by (simp add: itoa_8080 itoa_1080)
  from Execute_Env_proxy_variables [OF m2, of "[''PATH=/usr/bin'']", THEN conjunct2,
      THEN conjunct2, THEN conjunct2, THEN conjunct1] n2
  have "httpProxy ?m2 = None \<and> socksProxy ?m2 = None
        \<and> Execute_Env ?m2 [''PATH=/usr/bin'']
            = [''PATH=/usr/bin''] @ [''SRT_COMMAND_ID='' @ commandID ?m2]
        \<and> sets_proxy_var (Execute_Env ?m2 [''PATH=/usr/bin'']) = sets_proxy_var [''PATH=/usr/bin'']"
    by (rule mp)
  then have e2: "Execute_Env ?m2 [''PATH=/usr/bin''] = [''PATH=/usr/bin''] @ [''SRT_COMMAND_ID='' @ commandID ?m2]"
    by (elim conjE)
  have e2': "Execute_Env ?m2 [''PATH=/usr/bin''] = [''PATH=/usr/bin'', ''SRT_COMMAND_ID=c3J0LTQy'']"
    unfolding e2 by simp
  from m1 e1' m2 e2' show ?thesis by (intro conjI)
qed

text \<open>
  The claim as stated fails: with the network fully blocked (default policy \<open>deny\<close>,
  no allowed domain) and a parent environment that sets \<open>HTTP_PROXY\<close>, the child's
  environment still sets \<open>HTTP_PROXY\<close>, because \<open>Execute\<close> starts from \<open>os.Environ()\<close>.
\<close>

theorem Execute_Env_inherited_counterexample:
  "NewManager
     \<lparr>glob_Compile = (\<lambda>p. None), listen_http = (\<lambda>p. Some p), socks5_New_ok = True,
      listen_socks = (\<lambda>p. Some p), generateCommandID = ''c3J0LTQy''\<rparr>
     \<lparr>Network = \<lparr>DefaultPolicy = ''deny'', AllowedDomains = [], DeniedDomains = [],
        AllowUnixSockets = [], AllowLocalBinding = False, HTTPProxyPort = 0,
        SOCKSProxyPort = 0\<rparr>\<rparr>
   = Inr \<lparr>config = \<lparr>Network = \<lparr>DefaultPolicy = ''deny'', AllowedDomains = [],
                  DeniedDomains = [], AllowUnixSockets = [], AllowLocalBinding = False,
                  HTTPProxyPort = 0, SOCKSProxyPort = 0\<rparr>\<rparr>,
          httpProxy = None, socksProxy = None, commandID = ''c3J0LTQy''\<rparr>
   \<and> \<not> needsNetworkProxy
       \<lparr>Network = \<lparr>DefaultPolicy = ''deny'', AllowedDomains = [], DeniedDomains = [],
        AllowUnixSockets = [], AllowLocalBinding = False, HTTPProxyPort = 0,
        SOCKSProxyPort = 0\<rparr>\<rparr>
   \<and> Execute_Env
       \<lparr>config = \<lparr>Network = \<lparr>DefaultPolicy = ''deny'', AllowedDomains = [],
                  DeniedDomains = [], AllowUnixSockets = [], AllowLocalBinding = False,
                  HTTPProxyPort = 0, SOCKSProxyPort = 0\<rparr>\<rparr>,
          httpProxy = None, socksProxy = None, commandID = ''c3J0LTQy''\<rparr>
       [''PATH=/usr/bin'', ''HTTP_PROXY=http://proxy.corp:3128'']
     = [''PATH=/usr/bin'', ''HTTP_PROXY=http://proxy.corp:3128'', ''SRT_COMMAND_ID=c3J0LTQy'']
   \<and> sets_var
       (Execute_Env
         \<lparr>config = \<lparr>Network = \<lparr>DefaultPolicy = ''deny'', AllowedDomains = [],
                  DeniedDomains = [], AllowUnixSockets = [], AllowLocalBinding = False,
                  HTTPProxyPort = 0, SOCKSProxyPort = 0\<rparr>\<rparr>,
          httpProxy = None, socksProxy = None, commandID = ''c3J0LTQy''\<rparr>
         [''PATH=/usr/bin'', ''HTTP_PROXY=http://proxy.corp:3128''])
       ''HTTP_PROXY''"
  by (simp add: NewManager_def needsNetworkProxy_def Execute_Env_def proxyEnabled_def
      sets_var_def HasPrefix_def)

section \<open>Properties of the pattern compiler\<close>

subsection \<open>Results of the scan\<close>

lemma WriteString_Inr:
  "WriteString chunk r = Some (Inr out) \<Longrightarrow> \<exists>tail. r = Some (Inr tail) \<and> out = chunk @ tail"
  by (auto simp: WriteString_def split: option.splits sum.splits)

lemma WriteString_None: "(WriteString chunk r = None) = (r = None)"
  by (auto simp: WriteString_def split: option.splits sum.splits)

lemma convert_parts_Inr:
  "convert_parts rec idx parts = Some (Inr alts) \<Longrightarrow>
   \<forall>part\<in>set parts. \<exists>converted. rec part = Some (Inr converted)"
proof (induction parts arbitrary: idx alts)
  case Nil
  then show ?case by simp
next
  case (Cons part parts)
  from Cons.prems obtain converted where c: "rec part = Some (Inr converted)"
    by (cases "rec part") (auto split: sum.splits)
  with Cons.prems obtain tail where
    "convert_parts rec (Suc idx) parts = Some (Inr tail)"
    by (auto dest: WriteString_Inr)
  from Cons.IH [OF this] c show ?case by auto
qed

lemma convert_parts_None:
  "\<forall>part\<in>set parts. rec part \<noteq> None \<Longrightarrow> convert_parts rec idx parts \<noteq> None"
proof (induction parts arbitrary: idx)
  case Nil
  then show ?case by simp
next
  case (Cons part parts)
  then have ih: "convert_parts rec (Suc idx) parts \<noteq> None" by simp
  from Cons.prems have "rec part \<noteq> None" by simp
  then obtain r where r: "rec part = Some r" by auto
  show ?case
  proof (cases r)
    case (Inl e)
    with r show ?thesis by simp
  next
    case (Inr converted)
    with r ih show ?thesis by (simp add: WriteString_None)
  qed
qed

lemma Split_not_Nil: "Split s sep \<noteq> []"
  by (induction s) auto

lemma Split_length: "part \<in> set (Split s sep) \<Longrightarrow> length part \<le> length s"
proof (induction s arbitrary: part)
  case Nil
  then show ?case by simp
next
  case (Cons c s)
  show ?case
  proof (cases "c = sep")
    case True
    with Cons.prems have "part = [] \<or> part \<in> set (Split s sep)" by simp
    then show ?thesis
    proof
      assume "part = []"
      then show ?thesis by simp
    next
      assume "part \<in> set (Split s sep)"
      from Cons.IH [OF this] show ?thesis by simp
    qed
  next
    case False
    with Cons.prems have "part = c # hd (Split s sep) \<or> part \<in> set (tl (Split s sep))"
      by simp
    moreover have "hd (Split s sep) \<in> set (Split s sep)"
      using Split_not_Nil by simp
    moreover have "set (tl (Split s sep)) \<subseteq> set (Split s sep)"
      by (cases "Split s sep") auto
    ultimately show ?thesis using Cons.IH by fastforce
  qed
qed

lemma hd_Split_subset: "set (hd (Split s sep)) \<subseteq> set s"
  by (induction s) auto

subsection \<open>The scan for the closing brace\<close>

lemma brace_end_mono: "brace_end d s = None \<Longrightarrow> brace_end (Suc d) s = None"
proof (induction s arbitrary: d)
  case Nil
  then show ?case by (cases d) simp_all
next
  case (Cons c s)
  then obtain d' where d: "d = Suc d'" by (cases d) simp_all
  show ?case
  proof (cases "c = CHR ''}''")
    case True
    with Cons.prems d have "brace_end d' s = None" by simp
    from Cons.IH [OF this] True d show ?thesis by simp
  next
    case False
    with Cons.prems d Cons.IH show ?thesis by (auto split: if_splits)
  qed
qed

lemma brace_end_mono_le: "brace_end (Suc 0) s = None \<Longrightarrow> brace_end (Suc d) s = None"
  by (induction d) (auto intro: brace_end_mono)

lemma brace_end_bounds:
  "brace_end d s = Some k \<Longrightarrow> k \<le> length s \<and> (0 < d \<longrightarrow> 0 < k \<and> s ! (k - 1) = CHR ''}'')"
proof (induction s arbitrary: d k)
  case Nil
  then show ?case by (cases d) simp_all
next
  case (Cons c s)
  show ?case
  proof (cases d)
    case 0
    with Cons.prems show ?thesis by simp
  next
    case (Suc d')
    let ?d = "if c = CHR ''{'' then Suc (Suc d') else if c = CHR ''}'' then d' else Suc d'"
    from Cons.prems Suc obtain k' where k: "brace_end ?d s = Some k'" "k = Suc k'"
      by auto
    from Cons.IH [OF k(1)] have ih: "k' \<le> length s" "0 < ?d \<longrightarrow> 0 < k' \<and> s ! (k' - 1) = CHR ''}''"
      by simp_all
    show ?thesis
    proof (cases "k' = 0")
      case True
      with ih(2) have z: "?d = 0" by auto
      then have "c = CHR ''}''" by (auto split: if_splits)
      with True k Suc show ?thesis by simp
    next
      case False
      have "?d \<noteq> 0"
      proof
        assume "?d = 0"
        with k(1) have "k' = 0" by simp
        with False show False by simp
      qed
      with ih have "s ! (k' - 1) = CHR ''}''" by simp
      with False k ih(1) Suc show ?thesis by (cases k') simp_all
    qed
  qed
qed

lemma brace_end_before_open:
  "brace_end d (a @ CHR ''{'' # rest) = Some k \<Longrightarrow> brace_end (Suc 0) rest = None \<Longrightarrow> k \<le> length a"
proof (induction a arbitrary: d k)
  case Nil
  show ?case
  proof (cases d)
    case 0
    with Nil show ?thesis by simp
  next
    case (Suc d')
    from brace_end_mono_le [OF Nil.prems(2)] have "brace_end (Suc (Suc d')) rest = None" .
    with Nil.prems(1) Suc show ?thesis by simp
  qed
next
  case (Cons c a)
  show ?case
  proof (cases d)
    case 0
    with Cons.prems show ?thesis by simp
  next
    case (Suc d')
    let ?d = "if c = CHR ''{'' then Suc (Suc d') else if c = CHR ''}'' then d' else Suc d'"
    from Cons.prems(1) Suc obtain k' where k: "brace_end ?d (a @ CHR ''{'' # rest) = Some k'" "k = Suc k'"
      by auto
    from Cons.IH [OF k(1) Cons.prems(2)] k(2) show ?thesis by simp
  qed
qed

lemma brace_end_None_iff:
  "(brace_end (Suc d) s = None) =
     (\<forall>k\<le>length s. count_list (take k s) (CHR ''}'') \<le> d + count_list (take k s) (CHR ''{''))"
proof (induction s arbitrary: d)
  case Nil
  then show ?case by simp
next
  case (Cons c s)
  show ?case
  proof (cases "c = CHR ''{''")
    case True
    with Cons.IH [of "Suc d"] show ?thesis by (simp add: all_le_Suc_split)
  next
    case False
    note no = this
    show ?thesis
    proof (cases "c = CHR ''}''")
      case True
      show ?thesis
      proof (cases d)
        case 0
        have "\<not> (\<forall>k\<le>length (c # s). count_list (take k (c # s)) (CHR ''}'')
                \<le> d + count_list (take k (c # s)) (CHR ''{''))"
        proof
          assume "\<forall>k\<le>length (c # s). count_list (take k (c # s)) (CHR ''}'')
                \<le> d + count_list (take k (c # s)) (CHR ''{'')"
          then have "count_list (take 1 (c # s)) (CHR ''}'')
                \<le> d + count_list (take 1 (c # s)) (CHR ''{'')"
            by (metis One_nat_def Suc_le_mono length_Cons zero_le)
          with True 0 show False by simp
        qed
        with True 0 show ?thesis by simp
      next
        case (Suc d')
        with Cons.IH [of d'] True show ?thesis by (simp add: all_le_Suc_split)
      qed
    next
      case False
      with Cons.IH [of d] no show ?thesis by (simp add: all_le_Suc_split)
    qed
  qed
qed

lemma never_closes_brace_end: "never_closes rest = (brace_end (Suc 0) rest = None)"
  by (simp add: never_closes_def brace_end_None_iff)

subsection \<open>Unclosed brackets\<close>

lemma unclosed_bracket_Cons: "unclosed_bracket s \<Longrightarrow> unclosed_bracket (c # s)"
  unfolding unclosed_bracket_def by (metis append_Cons)

lemma unclosed_bracket_prepend: "unclosed_bracket s \<Longrightarrow> unclosed_bracket (a @ s)"
  by (induction a) (auto intro: unclosed_bracket_Cons)

lemma unclosed_bracket_tail:
  assumes "unclosed_bracket (c # s)"
  shows "(c = CHR ''['' \<and> CHR '']'' \<notin> set s) \<or> unclosed_bracket s"
proof -
  from assms obtain pre rest where
    p: "c # s = pre @ CHR ''['' # rest" "CHR '']'' \<notin> set rest"
    unfolding unclosed_bracket_def by blast
  show ?thesis
  proof (cases pre)
    case Nil
    with p show ?thesis by simp
  next
    case (Cons x pre')
    with p have "s = pre' @ CHR ''['' # rest" by simp
    with p(2) show ?thesis unfolding unclosed_bracket_def by blast
  qed
qed

lemma unclosed_bracket_append:
  assumes "unclosed_bracket (a @ b)"
  shows "unclosed_bracket a \<or> unclosed_bracket b"
  using assms
proof (induction a)
  case Nil
  then show ?case by simp
next
  case (Cons c a)
  from unclosed_bracket_tail [of c "a @ b"] Cons.prems
  have "(c = CHR ''['' \<and> CHR '']'' \<notin> set (a @ b)) \<or> unclosed_bracket (a @ b)" by simp
  then show ?case
  proof
    assume "c = CHR ''['' \<and> CHR '']'' \<notin> set (a @ b)"
    then have "c # a = [] @ CHR ''['' # a \<and> CHR '']'' \<notin> set a" by simp
    then have "unclosed_bracket (c # a)" unfolding unclosed_bracket_def by blast
    then show ?thesis ..
  next
    assume "unclosed_bracket (a @ b)"
    from Cons.IH [OF this] show ?thesis by (auto intro: unclosed_bracket_Cons)
  qed
qed

lemma unclosed_bracket_after_class:
  assumes "unclosed_bracket (CHR ''['' # s)" and "CHR '']'' \<in> set s"
  shows "unclosed_bracket (tl (dropWhile (\<lambda>c. c \<noteq> CHR '']'') s))"
proof -
  let ?P = "\<lambda>c. c \<noteq> CHR '']''"
  let ?T = "takeWhile ?P s" and ?D = "tl (dropWhile ?P s)"
  from assms(2) have ne: "dropWhile ?P s \<noteq> []" by (simp add: dropWhile_eq_Nil_conv)
  then have "hd (dropWhile ?P s) = CHR '']''" using hd_dropWhile [of ?P s] by simp
  with ne have d: "dropWhile ?P s = CHR '']'' # ?D"
    by (cases "dropWhile ?P s") simp_all
  have s: "s = ?T @ CHR '']'' # ?D"
    using takeWhile_dropWhile_id [of ?P s] d by simp
  from unclosed_bracket_tail [OF assms(1)] assms(2) have "unclosed_bracket s" by simp
  then obtain pre rest where
    p: "s = pre @ CHR ''['' # rest" "CHR '']'' \<notin> set rest"
    unfolding unclosed_bracket_def by blast
  from s p(1) have "?T @ (CHR '']'' # ?D) = pre @ (CHR ''['' # rest)" by simp
  then obtain us where
    "(?T = pre @ us \<and> us @ CHR '']'' # ?D = CHR ''['' # rest)
     \<or> (?T @ us = pre \<and> CHR '']'' # ?D = us @ CHR ''['' # rest)"
    unfolding append_eq_append_conv2 by blast
  then show ?thesis
  proof
    assume "?T = pre @ us \<and> us @ CHR '']'' # ?D = CHR ''['' # rest"
    then have "CHR '']'' \<in> set (CHR ''['' # rest)"
      by (metis in_set_conv_decomp)
    with p(2) show ?thesis by simp
  next
    assume a: "?T @ us = pre \<and> CHR '']'' # ?D = us @ CHR ''['' # rest"
    show ?thesis
    proof (cases us)
      case Nil
      with a show ?thesis by simp
    next
      case (Cons u us')
      with a have "?D = us' @ CHR ''['' # rest"
        by (metis append_Cons list.inject)
      with p(2) show ?thesis unfolding unclosed_bracket_def by blast
    qed
  qed
qed

subsection \<open>One step of the scan\<close>

lemma convert_plain_step:
  assumes "convert rec (ch # rest) = Some (Inr out)"
    and "ch \<noteq> CHR ''[''" and "ch \<noteq> CHR ''{''"
  shows "\<exists>skipped next tail. rest = skipped @ next \<and> set skipped \<subseteq> {CHR ''*'', CHR ''/''}
           \<and> convert rec next = Some (Inr tail)"
proof (cases "ch = CHR ''*'' \<and> rest \<noteq> [] \<and> hd rest = CHR ''*''")
  case True
  let ?next = "if tl rest \<noteq> [] \<and> hd (tl rest) = CHR ''/'' then tl (tl rest) else tl rest"
  from assms(1) True have "WriteString ''.*'' (convert rec ?next) = Some (Inr out)"
    by (subst (asm) convert.simps) simp
  then obtain tail where t: "convert rec ?next = Some (Inr tail)"
    by (auto dest: WriteString_Inr)
  show ?thesis
  proof (cases "tl rest \<noteq> [] \<and> hd (tl rest) = CHR ''/''")
    case True
    with \<open>ch = CHR ''*'' \<and> rest \<noteq> [] \<and> hd rest = CHR ''*''\<close>
    have "rest = [CHR ''*'', CHR ''/''] @ tl (tl rest)"
      by (cases rest; cases "tl rest") auto
    moreover have "set [CHR ''*'', CHR ''/''] \<subseteq> {CHR ''*'', CHR ''/''}" by simp
    moreover from t True have "convert rec (tl (tl rest)) = Some (Inr tail)" by simp
    ultimately show ?thesis by blast
  next
    case False
    with \<open>ch = CHR ''*'' \<and> rest \<noteq> [] \<and> hd rest = CHR ''*''\<close>
    have "rest = [CHR ''*''] @ tl rest"
      by (cases rest) auto
    moreover have "set [CHR ''*''] \<subseteq> {CHR ''*'', CHR ''/''}" by simp
    moreover from t False have "convert rec (tl rest) = Some (Inr tail)" by simp
    ultimately show ?thesis by blast
  qed
next
  case False
  from assms False obtain chunk where "WriteString chunk (convert rec rest) = Some (Inr out)"
    by (subst (asm) convert.simps) (auto split: if_splits)
  then obtain tail where "convert rec rest = Some (Inr tail)"
    by (auto dest: WriteString_Inr)
  then have "rest = [] @ rest \<and> set [] \<subseteq> {CHR ''*'', CHR ''/''}
      \<and> convert rec rest = Some (Inr tail)" by simp
  then show ?thesis by blast
qed

lemma convert_class_step:
  assumes "convert rec (CHR ''['' # rest) = Some (Inr out)"
  shows "CHR '']'' \<in> set rest
       \<and> (\<exists>tail. convert rec (tl (dropWhile (\<lambda>c. c \<noteq> CHR '']'') rest)) = Some (Inr tail))"
proof -
  from assms have in_rest: "CHR '']'' \<in> set rest"
    by (subst (asm) convert.simps) (auto split: if_splits)
  with assms have "WriteString (CHR ''['' # takeWhile (\<lambda>c. c \<noteq> CHR '']'') rest @ '']'')
      (convert rec (tl (dropWhile (\<lambda>c. c \<noteq> CHR '']'') rest))) = Some (Inr out)"
    by (subst (asm) convert.simps) simp
  with in_rest show ?thesis by (auto dest: WriteString_Inr)
qed

lemma convert_brace_step:
  assumes "convert rec (CHR ''{'' # rest) = Some (Inr out)"
  shows "\<exists>k alts tail. brace_end (Suc 0) rest = Some k
           \<and> convert_parts rec 0 (Split (take (k - 1) rest) CHR '','') = Some (Inr alts)
           \<and> convert rec (drop k rest) = Some (Inr tail)"
proof -
  from assms obtain k where k: "brace_end (Suc 0) rest = Some k"
    by (subst (asm) convert.simps) (auto split: option.splits)
  with assms obtain alts where
    a: "convert_parts rec 0 (Split (take (k - 1) rest) CHR '','') = Some (Inr alts)"
    by (subst (asm) convert.simps) (auto split: option.splits sum.splits)
  with assms k have "WriteString (''('' @ alts @ '')'') (convert rec (drop k rest)) = Some (Inr out)"
    by (subst (asm) convert.simps) simp
  then obtain tail where "convert rec (drop k rest) = Some (Inr tail)"
    by (auto dest: WriteString_Inr)
  with k a show ?thesis by blast
qed

subsection \<open>An unclosed bracket is never compiled\<close>

lemma not_unclosed_bracket_plain: "set s \<subseteq> {CHR ''*'', CHR ''/''} \<Longrightarrow> \<not> unclosed_bracket s"
  unfolding unclosed_bracket_def by auto

lemma Split_unclosed_bracket:
  assumes "sep \<noteq> CHR ''[''"
  shows "unclosed_bracket s \<Longrightarrow> \<exists>part\<in>set (Split s sep). unclosed_bracket part"
proof (induction s)
  case Nil
  then show ?case by (simp add: unclosed_bracket_def)
next
  case (Cons c s)
  from unclosed_bracket_tail [OF Cons.prems]
  show ?case
  proof
    assume a: "c = CHR ''['' \<and> CHR '']'' \<notin> set s"
    with assms have ns: "c \<noteq> sep" by simp
    have "CHR '']'' \<notin> set (hd (Split s sep))" using a hd_Split_subset by fastforce
    with a have "unclosed_bracket (c # hd (Split s sep))"
      unfolding unclosed_bracket_def by (metis append_Nil)
    with ns show ?thesis by simp
  next
    assume u: "unclosed_bracket s"
    from Cons.IH [OF this] obtain part where
      p: "part \<in> set (Split s sep)" "unclosed_bracket part" by blast
    show ?thesis
    proof (cases "c = sep")
      case True
      with p show ?thesis by auto
    next
      case False
      from p(1) have "part = hd (Split s sep) \<or> part \<in> set (tl (Split s sep))"
        by (cases "Split s sep") auto
      then show ?thesis
      proof
        assume "part = hd (Split s sep)"
        with p(2) have "unclosed_bracket (c # hd (Split s sep))"
          by (auto intro: unclosed_bracket_Cons)
        with False show ?thesis by simp
      next
        assume "part \<in> set (tl (Split s sep))"
        with p(2) False show ?thesis by auto
      qed
    qed
  qed
qed

lemma not_unclosed_bracket_Nil: "\<not> unclosed_bracket []"
  by (simp add: unclosed_bracket_def)

lemma convert_unclosed_bracket:
  assumes R: "\<And>q r. unclosed_bracket q \<Longrightarrow> rec q \<noteq> Some (Inr r)"
  shows "unclosed_bracket s \<Longrightarrow> convert rec s \<noteq> Some (Inr out)"
proof (induction "length s" arbitrary: s out rule: less_induct)
  case less
  from less.prems obtain ch rest where s: "s = ch # rest"
    by (cases s) (auto simp: not_unclosed_bracket_Nil)
  show ?case
  proof
    assume c: "convert rec s = Some (Inr out)"
    show False
    proof (cases "ch = CHR ''[''")
      case True
      from convert_class_step [of rec rest out] c s True obtain tail where
        i: "CHR '']'' \<in> set rest"
        and t: "convert rec (tl (dropWhile (\<lambda>c. c \<noteq> CHR '']'') rest)) = Some (Inr tail)"
        by auto
      from less.prems s True i have u: "unclosed_bracket (tl (dropWhile (\<lambda>c. c \<noteq> CHR '']'') rest))"
        by (auto intro: unclosed_bracket_after_class)
      have "length (tl (dropWhile (\<lambda>c. c \<noteq> CHR '']'') rest)) < length s"
        using s length_dropWhile_le [of "\<lambda>c. c \<noteq> CHR '']''" rest] by simp
      from less.hyps [OF this u] t show False by blast
    next
      case False
      note nb = this
      show False
      proof (cases "ch = CHR ''{''")
        case True
        from convert_brace_step [of rec rest out] c s True obtain k alts tail where
          k: "brace_end (Suc 0) rest = Some k"
          and a: "convert_parts rec 0 (Split (take (k - 1) rest) CHR '','') = Some (Inr alts)"
          and t: "convert rec (drop k rest) = Some (Inr tail)"
          by auto
        from brace_end_bounds [OF k] have kb: "k \<le> length rest" "0 < k" "rest ! (k - 1) = CHR ''}''"
          by simp_all
        have split: "rest = take (k - 1) rest @ CHR ''}'' # drop k rest"
          using kb id_take_nth_drop [of "k - 1" rest] by (cases k) simp_all
        from less.prems s True have "unclosed_bracket rest"
          using unclosed_bracket_tail [of ch rest] by simp
        with split have "unclosed_bracket (take (k - 1) rest @ CHR ''}'' # drop k rest)" by simp
        from unclosed_bracket_append [OF this]
        show False
        proof
          assume "unclosed_bracket (take (k - 1) rest)"
          from Split_unclosed_bracket [OF _ this, of "CHR '',''"] obtain part where
            p: "part \<in> set (Split (take (k - 1) rest) CHR '','')" "unclosed_bracket part"
            by auto
          from convert_parts_Inr [OF a] p(1) obtain converted where
            "rec part = Some (Inr converted)" by blast
          with R [OF p(2)] show False by blast
        next
          assume "unclosed_bracket (CHR ''}'' # drop k rest)"
          then have u: "unclosed_bracket (drop k rest)"
            using unclosed_bracket_tail [of "CHR ''}''" "drop k rest"] by simp
          have "length (drop k rest) < length s" using s by simp
          from less.hyps [OF this u] t show False by blast
        qed
      next
        case False
        from convert_plain_step [of rec ch rest out] c s nb False obtain skipped "next" tail where
          r: "rest = skipped @ next" and sk: "set skipped \<subseteq> {CHR ''*'', CHR ''/''}"
          and t: "convert rec next = Some (Inr tail)"
          by auto
        from less.prems s nb have "unclosed_bracket rest"
          using unclosed_bracket_tail [of ch rest] by simp
        with r have "unclosed_bracket (skipped @ next)" by simp
        from unclosed_bracket_append [OF this] not_unclosed_bracket_plain [OF sk]
        have u: "unclosed_bracket next" by simp
        have "length next < length s" using s r by simp
        from less.hyps [OF this u] t show False by blast
      qed
    qed
  qed
qed

lemma ContainsGlob_iff:
  "ContainsGlob p = (CHR ''*'' \<in> set p \<or> CHR ''?'' \<in> set p \<or> CHR ''['' \<in> set p \<or> CHR ''{'' \<in> set p)"
  by (auto simp: ContainsGlob_def ContainsAny_def list_ex_iff)

lemma GlobToRegex_glob:
  "ContainsGlob p \<Longrightarrow>
   GlobToRegex env (Suc fuel) p =
     WriteString ''^'' (case convert (GlobToRegex env fuel) p of
                          None \<Rightarrow> None
                        | Some (Inl e) \<Rightarrow> Some (Inl e)
                        | Some (Inr body) \<Rightarrow> Some (Inr (body @ ''$'')))"
  by simp

lemma GlobToRegex_glob_Inr:
  assumes "ContainsGlob p" and "GlobToRegex env (Suc fuel) p = Some (Inr r)"
  shows "\<exists>body. convert (GlobToRegex env fuel) p = Some (Inr body) \<and> r = ''^'' @ body @ ''$''"
  using assms(2) unfolding GlobToRegex_glob [OF assms(1)]
  by (auto dest!: WriteString_Inr split: option.splits sum.splits)

lemma unclosed_bracket_ContainsGlob: "unclosed_bracket p \<Longrightarrow> ContainsGlob p"
  by (auto simp: unclosed_bracket_def ContainsGlob_iff)

lemma GlobToRegex_unclosed_bracket:
  "unclosed_bracket p \<Longrightarrow> GlobToRegex env fuel p \<noteq> Some (Inr r)"
proof (induction fuel arbitrary: p r)
  case 0
  then show ?case by simp
next
  case (Suc fuel)
  show ?case
  proof
    assume "GlobToRegex env (Suc fuel) p = Some (Inr r)"
    from GlobToRegex_glob_Inr [OF unclosed_bracket_ContainsGlob [OF Suc.prems] this]
    obtain body where "convert (GlobToRegex env fuel) p = Some (Inr body)" by blast
    moreover have "convert (GlobToRegex env fuel) p \<noteq> Some (Inr body)"
      by (rule convert_unclosed_bracket [OF _ Suc.prems]) (rule Suc.IH)
    ultimately show False by simp
  qed
qed

subsection \<open>An unclosed brace group is never compiled\<close>

lemma not_unclosed_bracket_suffix: "\<not> unclosed_bracket (a @ b) \<Longrightarrow> \<not> unclosed_bracket b"
  by (auto intro: unclosed_bracket_prepend)

lemma convert_unclosed_brace:
  assumes "brace_end (Suc 0) rest = None"
  shows "\<not> unclosed_bracket pre \<Longrightarrow> convert rec (pre @ CHR ''{'' # rest) \<noteq> Some (Inr out)"
proof (induction "length pre" arbitrary: pre out rule: less_induct)
  case less
  let ?X = "CHR ''{'' # rest"
  show ?case
  proof
    assume c: "convert rec (pre @ ?X) = Some (Inr out)"
    show False
    proof (cases pre)
      case Nil
      with c convert_brace_step [of rec rest out] assms show False by auto
    next
      case (Cons ch pre')
      show False
      proof (cases "ch = CHR ''[''")
        case True
        let ?P = "\<lambda>c. c \<noteq> CHR '']''"
        have i: "CHR '']'' \<in> set pre'"
        proof (rule ccontr)
          assume "CHR '']'' \<notin> set pre'"
          with Cons True have "pre = [] @ CHR ''['' # pre' \<and> CHR '']'' \<notin> set pre'" by simp
          then have "unclosed_bracket pre" unfolding unclosed_bracket_def by blast
          with less.prems show False by simp
        qed
        then have ne: "dropWhile ?P pre' \<noteq> []" by (simp add: dropWhile_eq_Nil_conv)
        from i obtain x where x: "x \<in> set pre'" "\<not> ?P x" by auto
        have dw: "dropWhile ?P (pre' @ ?X) = dropWhile ?P pre' @ ?X"
          by (rule dropWhile_append1 [of x pre' ?P, OF x])
        from c Cons True convert_class_step [of rec "pre' @ ?X" out] obtain tail where
          "convert rec (tl (dropWhile ?P (pre' @ ?X))) = Some (Inr tail)" by auto
        with dw ne have t: "convert rec (tl (dropWhile ?P pre') @ ?X) = Some (Inr tail)" by simp
        have "pre = (CHR ''['' # takeWhile ?P pre' @ [hd (dropWhile ?P pre')]) @ tl (dropWhile ?P pre')"
          using Cons True ne takeWhile_dropWhile_id [of ?P pre'] by simp
        with less.prems have nu: "\<not> unclosed_bracket (tl (dropWhile ?P pre'))"
          by (metis not_unclosed_bracket_suffix)
        have "length (tl (dropWhile ?P pre')) < length pre"
          using Cons length_dropWhile_le [of ?P pre'] by simp
        from less.hyps [OF this nu] t show False by blast
      next
        case False
        note nb = this
        show False
        proof (cases "ch = CHR ''{''")
          case True
          from c Cons True convert_brace_step [of rec "pre' @ ?X" out] obtain k tail where
            k: "brace_end (Suc 0) (pre' @ ?X) = Some k"
            and t: "convert rec (drop k (pre' @ ?X)) = Some (Inr tail)" by auto
          from brace_end_before_open [OF k assms] have kl: "k \<le> length pre'" .
          with t have t': "convert rec (drop k pre' @ ?X) = Some (Inr tail)" by simp
          have "pre = (ch # take k pre') @ drop k pre'" using Cons by simp
          with less.prems have nu: "\<not> unclosed_bracket (drop k pre')"
            by (metis not_unclosed_bracket_suffix)
          have "length (drop k pre') < length pre" using Cons by simp
          from less.hyps [OF this nu] t' show False by blast
        next
          case False
          from c Cons nb False convert_plain_step [of rec ch "pre' @ ?X" out]
          obtain skipped "next" tail where
            r: "pre' @ ?X = skipped @ next" and sk: "set skipped \<subseteq> {CHR ''*'', CHR ''/''}"
            and t: "convert rec next = Some (Inr tail)" by auto
          from r obtain us where
            "(pre' = skipped @ us \<and> us @ ?X = next) \<or> (pre' @ us = skipped \<and> ?X = us @ next)"
            unfolding append_eq_append_conv2 by blast
          then obtain vs where v: "pre' = skipped @ vs" "next = vs @ ?X"
          proof
            assume "pre' = skipped @ us \<and> us @ ?X = next"
            then show ?thesis using that by blast
          next
            assume a: "pre' @ us = skipped \<and> ?X = us @ next"
            show ?thesis
            proof (cases us)
              case Nil
              with a have "pre' = skipped @ []" "next = [] @ ?X" by simp_all
              then show ?thesis using that by blast
            next
              case (Cons u us')
              with a have "u = CHR ''{''" by simp
              with a Cons have "CHR ''{'' \<in> set skipped" by auto
              with sk show ?thesis by auto
            qed
          qed
          have "pre = (ch # skipped) @ vs" using \<open>pre = ch # pre'\<close> v(1) by simp
          with less.prems have nu: "\<not> unclosed_bracket vs"
            by (metis not_unclosed_bracket_suffix)
          have "length vs < length pre" using \<open>pre = ch # pre'\<close> v(1) by simp
          from less.hyps [OF this nu] t v(2) show False by blast
        qed
      qed
    qed
  qed
qed

lemma unclosed_brace_ContainsGlob: "unclosed_brace p \<Longrightarrow> ContainsGlob p"
  by (auto simp: unclosed_brace_def ContainsGlob_iff)

lemma GlobToRegex_unclosed_brace:
  assumes "unclosed_brace p"
  shows "GlobToRegex env fuel p \<noteq> Some (Inr r)"
proof (cases fuel)
  case 0
  then show ?thesis by simp
next
  case (Suc n)
  from assms obtain pre rest where
    p: "p = pre @ CHR ''{'' # rest" "\<not> unclosed_bracket pre" "brace_end (Suc 0) rest = None"
    unfolding unclosed_brace_def never_closes_brace_end by blast
  show ?thesis
  proof
    assume "GlobToRegex env fuel p = Some (Inr r)"
    with Suc GlobToRegex_glob_Inr [OF unclosed_brace_ContainsGlob [OF assms], of env n r]
    obtain body where "convert (GlobToRegex env n) p = Some (Inr body)" by blast
    with convert_unclosed_brace [OF p(3) p(2), of "GlobToRegex env n" body] p(1)
    show False by simp
  qed
qed

subsection \<open>The recursion ends\<close>


lemma set_tl_subset: "set (tl xs) \<subseteq> set xs"
  by (cases xs) auto

lemma convert_None_step:
  assumes "convert rec (ch # rest) = None"
  shows "(\<exists>next. convert rec next = None \<and> length next \<le> length rest \<and> set next \<subseteq> set rest)
       \<or> (ch = CHR ''{'' \<and> (\<exists>k. convert_parts rec 0 (Split (take (k - 1) rest) CHR '','') = None))"
proof (cases "ch = CHR ''{''")
  case True
  with assms obtain k where k: "brace_end (Suc 0) rest = Some k"
    by (subst (asm) convert.simps) (auto split: option.splits)
  show ?thesis
  proof (cases "convert_parts rec 0 (Split (take (k - 1) rest) CHR '','')")
    case None
    with True show ?thesis by blast
  next
    case (Some r)
    show ?thesis
    proof (cases r)
      case (Inl e)
      with assms True k Some show ?thesis by (subst (asm) convert.simps) simp
    next
      case (Inr alts)
      with assms True k Some have "WriteString (''('' @ alts @ '')'') (convert rec (drop k rest)) = None"
        by (subst (asm) convert.simps) simp
      then have "convert rec (drop k rest) = None" by (simp add: WriteString_None)
      moreover have "length (drop k rest) \<le> length rest" by simp
      moreover have "set (drop k rest) \<subseteq> set rest" by (rule set_drop_subset)
      ultimately show ?thesis by blast
    qed
  qed
next
  case False
  note nbrace = this
  show ?thesis
  proof (cases "ch = CHR ''[''")
    case True
    let ?n = "tl (dropWhile (\<lambda>c. c \<noteq> CHR '']'') rest)"
    from assms True have i: "CHR '']'' \<in> set rest"
      by (subst (asm) convert.simps) (auto split: if_splits)
    with assms True have "WriteString (CHR ''['' # takeWhile (\<lambda>c. c \<noteq> CHR '']'') rest @ '']'')
        (convert rec ?n) = None"
      by (subst (asm) convert.simps) simp
    then have "convert rec ?n = None" by (simp add: WriteString_None)
    moreover have "length ?n \<le> length rest"
      using length_dropWhile_le [of "\<lambda>c. c \<noteq> CHR '']''" rest] by simp
    moreover have "set ?n \<subseteq> set rest"
    proof -
      have "set ?n \<subseteq> set (dropWhile (\<lambda>c. c \<noteq> CHR '']'') rest)"
        by (rule set_tl_subset)
      also have "\<dots> \<subseteq> set rest" by (rule subsetI) (erule set_dropWhileD)
      finally show ?thesis .
    qed
    ultimately show ?thesis by blast
  next
    case False
    show ?thesis
    proof (cases "ch = CHR ''*'' \<and> rest \<noteq> [] \<and> hd rest = CHR ''*''")
      case True
      let ?n = "if tl rest \<noteq> [] \<and> hd (tl rest) = CHR ''/'' then tl (tl rest) else tl rest"
      from assms True have "WriteString ''.*'' (convert rec ?n) = None"
        by (subst (asm) convert.simps) simp
      then have "convert rec ?n = None" by (simp only: WriteString_None)
      moreover have "length ?n \<le> length rest" by simp
      moreover have "set ?n \<subseteq> set rest"
        by (cases rest; cases "tl rest") auto
      ultimately show ?thesis by blast
    next
      case nstar: False
      from assms nbrace False nstar have "convert rec rest = None"
        by (subst (asm) convert.simps) (simp add: WriteString_None split: if_splits)
      then show ?thesis by blast
    qed
  qed
qed


lemma convert_not_None:
  "(CHR ''{'' \<in> set s \<Longrightarrow> \<forall>q. length q < length s \<longrightarrow> rec q \<noteq> None) \<Longrightarrow> convert rec s \<noteq> None"
proof (induction "length s" arbitrary: s rule: less_induct)
  case less
  show ?case
  proof (cases s)
    case Nil
    then show ?thesis by (simp add: convert.simps)
  next
    case (Cons ch rest)
    show ?thesis
    proof
      assume "convert rec s = None"
      with Cons have "convert rec (ch # rest) = None" by simp
      from convert_None_step [OF this] show False
      proof (elim disjE exE conjE)
        fix nxt
        assume n: "convert rec nxt = None" and l: "length nxt \<le> length rest"
          and s: "set nxt \<subseteq> set rest"
        from l Cons have lt: "length nxt < length s" by simp
        have "convert rec nxt \<noteq> None"
        proof (rule less.hyps [OF lt])
          assume "CHR ''{'' \<in> set nxt"
          with s Cons have "CHR ''{'' \<in> set s" by auto
          from less.prems [OF this] lt show "\<forall>q. length q < length nxt \<longrightarrow> rec q \<noteq> None"
            by auto
        qed
        with n show False by simp
      next
        fix k
        assume b: "ch = CHR ''{''"
          and p: "convert_parts rec 0 (Split (take (k - 1) rest) CHR '','') = None"
        have "convert_parts rec 0 (Split (take (k - 1) rest) CHR '','') \<noteq> None"
        proof (rule convert_parts_None, rule ballI)
          fix part assume "part \<in> set (Split (take (k - 1) rest) CHR '','')"
          from Split_length [OF this] have "length part < length s" using Cons by simp
          moreover from b Cons have "CHR ''{'' \<in> set s" by simp
          ultimately show "rec part \<noteq> None" using less.prems by blast
        qed
        with p show False by simp
      qed
    qed
  qed
qed

lemma GlobToRegex_not_None:
  assumes "brace_free_paths env"
  shows "length p < fuel \<Longrightarrow> GlobToRegex env fuel p \<noteq> None"
proof (induction fuel arbitrary: p)
  case 0
  then show ?case by simp
next
  case (Suc fuel)
  show ?case
  proof (cases "ContainsGlob p")
    case True
    have "convert (GlobToRegex env fuel) p \<noteq> None"
    proof (rule convert_not_None, intro allI impI)
      fix q :: string assume "length q < length p"
      with Suc.prems have "length q < fuel" by simp
      then show "GlobToRegex env fuel q \<noteq> None" by (rule Suc.IH)
    qed
    then show ?thesis
      unfolding GlobToRegex_glob [OF True]
      by (auto simp: WriteString_None split: option.splits sum.splits)
  next
    case False
    show ?thesis
    proof (cases "NormalisePath env p")
      case (Inl e)
      with False show ?thesis by simp
    next
      case (Inr q)
      with assms False have "CHR ''{'' \<notin> set q" by (auto simp: brace_free_paths_def)
      then have "convert (GlobToRegex env fuel) q \<noteq> None"
        by (intro convert_not_None) simp
      with False Inr show ?thesis
        by (auto simp: WriteString_None split: option.splits sum.splits)
    qed
  qed
qed

text \<open>
  A pattern with an unclosed bracket character class or an unclosed brace group is
  never compiled: no fuel and no answers of the operating system make \<open>GlobToRegex\<close>
  return a pattern text for it. Where the operating system hands back no path
  containing an opening brace (so that the recursion into the alternatives ends) and the
  fuel exceeds the length of the pattern, \<open>GlobToRegex\<close> returns an error.
\<close>

lemma GlobToRegex_unclosed:
  assumes "unclosed_bracket p \<or> unclosed_brace p"
  shows "(\<forall>regex. GlobToRegex env fuel p \<noteq> Some (Inr regex))
       \<and> (brace_free_paths env \<and> length p < fuel \<longrightarrow> (\<exists>e. GlobToRegex env fuel p = Some (Inl e)))"
proof (intro conjI impI)
  show n: "\<forall>regex. GlobToRegex env fuel p \<noteq> Some (Inr regex)"
    using assms GlobToRegex_unclosed_bracket GlobToRegex_unclosed_brace by blast
  assume "brace_free_paths env \<and> length p < fuel"
  then have "GlobToRegex env fuel p \<noteq> None" using GlobToRegex_not_None by blast
  then obtain r where r: "GlobToRegex env fuel p = Some r" by auto
  with n show "\<exists>e. GlobToRegex env fuel p = Some (Inl e)" by (cases r) auto
qed

lemma GlobToRegex_unclosed_example:
  "unclosed_bracket ''src/[a-z''
   \<and> unclosed_brace ''*.{js,ts''
   \<and> brace_free_paths
       \<lparr>os_UserHomeDir = None, filepath_Join = (\<lambda>a b. a @ b), filepath_Abs = (\<lambda>p. Some (''/w/'' @ p)),
        filepath_EvalSymlinks = (\<lambda>p. NotExist)\<rparr>
   \<and> (\<exists>e. GlobToRegex
         \<lparr>os_UserHomeDir = None, filepath_Join = (\<lambda>a b. a @ b), filepath_Abs = (\<lambda>p. Some (''/w/'' @ p)),
          filepath_EvalSymlinks = (\<lambda>p. NotExist)\<rparr> 10 ''src/[a-z'' = Some (Inl e))
   \<and> (\<exists>e. GlobToRegex
         \<lparr>os_UserHomeDir = None, filepath_Join = (\<lambda>a b. a @ b), filepath_Abs = (\<lambda>p. Some (''/w/'' @ p)),
          filepath_EvalSymlinks = (\<lambda>p. NotExist)\<rparr> 10 ''*.{js,ts'' = Some (Inl e))"
proof -
  let ?env = "\<lparr>os_UserHomeDir = None, filepath_Join = (\<lambda>a b. a @ b),
      filepath_Abs = (\<lambda>p. Some (''/w/'' @ p)), filepath_EvalSymlinks = (\<lambda>p. NotExist)\<rparr>"
  have a: "unclosed_bracket ''src/[a-z''"
    unfolding unclosed_bracket_def
    by (rule exI [of _ "''src/''"], rule exI [of _ "''a-z''"]) simp
  have b: "unclosed_brace ''*.{js,ts''"
    unfolding unclosed_brace_def never_closes_brace_end
    by (rule exI [of _ "''*.''"], rule exI [of _ "''js,ts''"])
       (simp add: unclosed_bracket_def Cons_eq_append_conv)
  have e: "brace_free_paths ?env"
    by (auto simp: brace_free_paths_def NormalisePath_def ContainsGlob_iff split: if_splits)
  have la: "length ''src/[a-z'' < 10" and lb: "length ''*.{js,ts'' < 10" by simp_all
  from GlobToRegex_unclosed [of "''src/[a-z''" ?env 10] a e la
  have ra: "\<exists>e. GlobToRegex ?env 10 ''src/[a-z'' = Some (Inl e)" by blast
  from GlobToRegex_unclosed [of "''*.{js,ts''" ?env 10] b e lb
  have rb: "\<exists>e. GlobToRegex ?env 10 ''*.{js,ts'' = Some (Inl e)" by blast
  from a b e ra rb show ?thesis by (intro conjI)
qed

subsection \<open>A recursion that does not end\<close>

lemma GlobToRegex_loop_x: "GlobToRegex (cwd_env ''/w{x}'') fuel ''x'' = None"
proof (induction fuel)
  case 0
  show ?case by simp
next
  case (Suc fuel)
  then show ?case
    by (simp add: cwd_env_def ContainsGlob_def ContainsAny_def NormalisePath_def HasPrefix_def
        convert.simps WriteString_def)
qed

lemma GlobToRegex_loop_a: "GlobToRegex (cwd_env ''/w{x}'') fuel ''a'' = None"
proof (cases fuel)
  case 0
  then show ?thesis by simp
next
  case (Suc n)
  have "GlobToRegex (cwd_env ''/w{x}'') n ''x'' = None" by (rule GlobToRegex_loop_x)
  with Suc show ?thesis
    by (simp add: cwd_env_def ContainsGlob_def ContainsAny_def NormalisePath_def HasPrefix_def
        convert.simps WriteString_def)
qed

text \<open>
  Claim C7. With an unclosed brace group in the pattern the compiler can fail to return
  at all. In a working directory \<open>/w{x}\<close> the pattern \<open>{a}{b\<close>, whose second group is
  not closed, makes \<open>GlobToRegex\<close> call itself on the alternative \<open>a\<close>; that one is
  normalised to \<open>/w{x}/a\<close>, whose group sends the scan into the alternative \<open>x\<close>,
  normalised to \<open>/w{x}/x\<close>, and so on without end. No amount of fuel gives a result:
  neither an error nor a pattern text is returned.
\<close>

theorem GlobToRegex_unclosed_never_returns:
  "GlobToRegex (cwd_env ''/w{x}'') fuel ''{a}{b'' = None
   \<and> unclosed_brace ''{a}{b''"
proof
  show "GlobToRegex (cwd_env ''/w{x}'') fuel ''{a}{b'' = None"
  proof (cases fuel)
    case 0
    then show ?thesis by simp
  next
    case (Suc n)
    have "GlobToRegex (cwd_env ''/w{x}'') n ''a'' = None" by (rule GlobToRegex_loop_a)
    with Suc show ?thesis
      by (simp add: ContainsGlob_def ContainsAny_def convert.simps WriteString_def)
  qed
  show "unclosed_brace ''{a}{b''"
    unfolding unclosed_brace_def never_closes_def
    by (rule exI [of _ "''{a}''"], rule exI [of _ "''b''"])
       (auto simp: unclosed_bracket_def Cons_eq_append_conv le_Suc_eq)
qed

subsection \<open>Decoding UTF-8\<close>


































subsection \<open>The scan, step by step\<close>











subsection \<open>Reading the emitted text back\<close>

lemma parse_body_end: "parse_body [rune CHR ''$''] = Some ([], True)"
  by (simp add: parse_body.simps)










subsection \<open>The specified meaning, clause by clause\<close>


lemma atom_match_non_sep:
  "atom_match (Class True [(rune CHR ''/'', rune CHR ''/'')]) x = (x \<noteq> rune CHR ''/'')"
  by auto








subsection \<open>Bracket classes in well-formed text\<close>


lemma dropWhile_until: "d \<notin> set xs \<Longrightarrow> dropWhile (\<lambda>x. x \<noteq> d) (xs @ d # ys) = d # ys"
  by (induction xs) auto




subsection \<open>The emitted text means what the pattern is specified to mean\<close>


















subsection \<open>Patterns that are not well-formed UTF-8\<close>







subsection \<open>Brace groups\<close>

text \<open>
  An alternative without glob characters goes through \<open>NormalisePath\<close> in the recursive
  call, so it stands in the alternation as an absolute path.
\<close>

lemma GlobToRegex_alternative_normalised:
  "GlobToRegex
     \<lparr>os_UserHomeDir = None, filepath_Join = (\<lambda>a b. a @ b), filepath_Abs = (\<lambda>p. Some (''/w/'' @ p)),
      filepath_EvalSymlinks = (\<lambda>p. NotExist)\<rparr> (Suc (Suc 0)) ''*.{js,ts}''
   = Some (Inr (''^[^/]*'' @ backslash # ''.(/w/js|/w/ts)$''))"
  by (simp add: convert.simps ContainsGlob_def ContainsAny_def WriteString_def NormalisePath_def
      TrimPrefix_def TrimSuffix_def HasPrefix_def HasSuffix_def)

text \<open>
  Claim C6. A brace group nested inside another one is not compiled. The scan for the
  end of the outer group counts the depth of the braces, but the text between the
  braces is then cut at every comma, also at the commas of the inner group: the
  alternatives of \<open>{*.a,{*.b,*.c}}\<close> are \<open>*.a\<close>, \<open>{*.b\<close> and \<open>*.c}\<close>, and the second one fails
  as an unclosed brace. The inner group on its own compiles to an alternation.
\<close>

theorem GlobToRegex_nested_braces_rejected:
  "GlobToRegex env (Suc (Suc fuel)) ''{*.a,{*.b,*.c}}'' = Some (Inl UnclosedBrace)
   \<and> Split ''*.a,{*.b,*.c}'' CHR '','' = [''*.a'', ''{*.b'', ''*.c}'']
   \<and> GlobToRegex env (Suc (Suc fuel)) ''{*.b,*.c}''
       = Some (Inr (''^([^/]*'' @ backslash # ''.b|[^/]*'' @ backslash # ''.c)$''))"
  by (simp add: convert.simps ContainsGlob_def ContainsAny_def WriteString_def
      TrimPrefix_def TrimSuffix_def HasPrefix_def HasSuffix_def)

end
